theory Spec2Isabelle
  imports Main "HOL-Library.Multiset"
begin

section \<open>Data model of the parking lottery\<close>

text \<open>
  The embedding follows \<^verbatim>\<open>app/modules/sorteo/service.py\<close> (class LotteryService) together with
  the pydantic models it reads and the generic repository in \<^verbatim>\<open>app/shared/repository.py\<close>.
  Only the fields that the lottery reads or writes are kept in the records.
\<close>

datatype vehicle = Automovil | Motocicleta

datatype req_status = Pending | Accepted | Rejected

text \<open>The errors that execute_lottery can raise: the HTTPException with status 409 (it
  carries the period of its detail message), the ValueError of a period that does not parse,
  and the errors of \<^verbatim>\<open>BaseRepository.create\<close>: the OverflowError of \<^verbatim>\<open>insert_one\<close> for an
  integer that does not fit eight bytes, and its two RuntimeErrors (with their messages).\<close>

datatype error = Conflict string | ValueError | OverflowError | RuntimeError string

text \<open>solicitudes/models.py, class Request. The id is the string that the repository puts
  into every document it returns.\<close>

record Request =
  rq_id :: string
  rq_user_id :: string
  rq_vehicle_type :: vehicle
  rq_license_plate :: string
  rq_disability :: bool
  rq_pay :: bool
  rq_status :: req_status
  rq_lottery_period :: string

text \<open>residentes/models.py, class User.\<close>

record User =
  u_id :: string
  u_full_name :: string
  u_cc :: string
  u_email :: string
  u_apartment :: string

text \<open>sorteo/models.py, classes LotteryParticipantResult and LotteryResult.\<close>

record LotteryParticipantResult =
  user_id :: string
  cc :: string
  full_name :: string
  apartment :: string
  vehicle_type :: vehicle
  license_plate :: string
  spot :: "string option"
  request_id :: string

record LotteryResult =
  lr_id :: "string option"
  period :: string
  total_car_spots_offered :: nat
  total_moto_spots_offered :: nat
  winners :: "LotteryParticipantResult list"
  non_winners :: "LotteryParticipantResult list"
  executed_at :: int

text \<open>sorteo/schemas.py, class LotteryCreate. Both counts carry the validator \<^verbatim>\<open>ge=0\<close>, so
  they are naturals.\<close>

record LotteryCreate =
  lc_period :: string
  num_car_spots :: nat
  num_moto_spots :: nat

text \<open>The dictionaries \<^verbatim>\<open>{"request": req, "user": user, "priority_score": 0}\<close> that
  execute_lottery builds for every request whose user resolves.\<close>

record candidate =
  request :: Request
  user :: User
  priority_score :: int

text \<open>The three collections behind the repositories. The users collection is seen only
  through \<^verbatim>\<open>BaseRepository.get\<close>: it associates the id string of a lookup with the stored
  document.\<close>

record db =
  lotteries :: "LotteryResult list"
  requests :: "Request list"
  users :: "(string \<times> User) list"

text \<open>What an execution takes from outside the stores: the clock (\<^verbatim>\<open>datetime.utcnow\<close>), what
  the storage answers to the insert (\<^verbatim>\<open>result.inserted_id\<close>, None when it reports no
  identifier) and to the read that follows it (whether the inserted document is found),
  and the draws of the random generator behind \<^verbatim>\<open>random.shuffle\<close>.\<close>

record env =
  now :: int
  inserted_id :: "string option"
  found_after_insert :: bool
  draws :: "nat list"

section \<open>Repository operations\<close>

text \<open>\<^verbatim>\<open>lottery_repository.find_one({"period": p})\<close>: the first stored document of the period.\<close>

definition find_one_period :: "LotteryResult list \<Rightarrow> string \<Rightarrow> LotteryResult option" where
  "find_one_period coll p = find (\<lambda>l. period l = p) coll"

text \<open>\<^verbatim>\<open>request_repository.find_many({"lottery_period": p, "status": "accepted"}, limit=...)\<close>
  with the default \<^verbatim>\<open>skip=0\<close>. For the cursor a limit of 0 is no limit (as get_all_requests of
  the requests service uses it: \<^verbatim>\<open>limit=0  # Obtener todos\<close>).\<close>

definition find_many_accepted :: "Request list \<Rightarrow> string \<Rightarrow> nat \<Rightarrow> Request list" where
  "find_many_accepted coll p limit =
     (let found = filter (\<lambda>r. rq_lottery_period r = p \<and> rq_status r = Accepted) coll
      in if limit = 0 then found else take limit found)"

text \<open>\<^verbatim>\<open>user_repository.get(item_id)\<close>: the document or None.\<close>

definition get_user :: "(string \<times> User) list \<Rightarrow> string \<Rightarrow> User option" where
  "get_user coll item_id = map_of coll item_id"

text \<open>\<^verbatim>\<open>lottery_repository.create(obj)\<close>. \<^verbatim>\<open>insert_one\<close> raises OverflowError when an integer of
  the document (here the two offered totals) is 2^63 or more, and nothing is stored. Otherwise
  create raises RuntimeError when the insert reports no identifier or when the document is
  not found by the read that follows; else the document is in the collection with the
  identifier the storage assigned, and is returned with it.\<close>

definition create_lottery :: "env \<Rightarrow> LotteryResult \<Rightarrow> LotteryResult list
    \<Rightarrow> (error + LotteryResult) \<times> LotteryResult list" where
  "create_lottery e obj coll =
     (if \<not> (int (total_car_spots_offered obj) < 2 ^ 63 \<and> int (total_moto_spots_offered obj) < 2 ^ 63)
      then (Inl OverflowError, coll)
      else
        (case inserted_id e of
           None \<Rightarrow> (Inl (RuntimeError ''Failed to insert document''), coll)
         | Some oid \<Rightarrow>
             if \<not> found_after_insert e
             then (Inl (RuntimeError ''Inserted document not found''), coll)
             else (let created = obj\<lparr>lr_id := Some oid\<rparr> in (Inr created, coll @ [created]))))"

section \<open>Decimal formatting and parsing\<close>

definition digit_char :: "nat \<Rightarrow> char" where
  "digit_char d = char_of (48 + d)"

definition digit_val :: "char \<Rightarrow> nat" where
  "digit_val c = of_char c - 48"

definition is_digit :: "char \<Rightarrow> bool" where
  "is_digit c = (48 \<le> (of_char c :: nat) \<and> (of_char c :: nat) \<le> 57)"

text \<open>\<^verbatim>\<open>str(n)\<close> for a natural number.\<close>

fun str_nat :: "nat \<Rightarrow> string" where
  "str_nat n = (if n < 10 then [digit_char n] else str_nat (n div 10) @ [digit_char (n mod 10)])"

declare str_nat.simps [simp del]

text \<open>The format specification \<^verbatim>\<open>{i:0wd}\<close>: zero padding to width w, the sign counted in
  the width.\<close>

definition zfill :: "nat \<Rightarrow> string \<Rightarrow> string" where
  "zfill w s = replicate (w - length s) (CHR ''0'') @ s"

definition fmt_0d :: "nat \<Rightarrow> int \<Rightarrow> string" where
  "fmt_0d w i =
     (if i < 0 then CHR ''-'' # zfill (w - 1) (str_nat (nat (- i)))
      else zfill w (str_nat (nat i)))"

text \<open>\<^verbatim>\<open>int(s)\<close> on a string of ASCII digits, the only strings that a validated period
  (\<^verbatim>\<open>^\d{4}-\d{2}$\<close>) hands to it; any other string is reported as the ValueError (None).\<close>

definition py_int :: "string \<Rightarrow> int option" where
  "py_int s =
     (if s \<noteq> [] \<and> list_all is_digit s
      then Some (int (foldl (\<lambda>a c. 10 * a + digit_val c) 0 s)) else None)"

text \<open>\<^verbatim>\<open>s.split(sep)\<close> for a one-character separator.\<close>

fun split_on :: "char \<Rightarrow> string \<Rightarrow> string list" where
  "split_on sep [] = [[]]"
| "split_on sep (c # cs) =
     (if c = sep then [] # split_on sep cs
      else (case split_on sep cs of [] \<Rightarrow> [[c]] | p # ps \<Rightarrow> (c # p) # ps))"

section \<open>The lottery service\<close>

subsection \<open>Carry-forward resolver\<close>

text \<open>The f-string \<^verbatim>\<open>f"{prev_year:04d}-{prev_month:02d}"\<close>.\<close>

definition period_str :: "int \<Rightarrow> int \<Rightarrow> string" where
  "period_str y m = fmt_0d 4 y @ ''-'' @ fmt_0d 2 m"

text \<open>Lines 37 to 47 of service.py: \<^verbatim>\<open>year, month = map(int, current_period.split('-'))\<close>
  raises ValueError unless there are exactly two parts and both convert.\<close>

definition previous_period :: "string \<Rightarrow> error + string" where
  "previous_period current_period =
     (case map py_int (split_on (CHR ''-'') current_period) of
        [Some year, Some month] \<Rightarrow>
          (if month = 1 then Inr (period_str (year - 1) 12)
           else Inr (period_str year (month - 1)))
      | _ \<Rightarrow> Inl ValueError)"

definition get_previous_period_non_winners :: "db \<Rightarrow> string \<Rightarrow> error + string list" where
  "get_previous_period_non_winners d current_period =
     (case previous_period current_period of
        Inl e \<Rightarrow> Inl e
      | Inr prev \<Rightarrow>
          (case find_one_period (lotteries d) prev of
             None \<Rightarrow> Inr []
           | Some previous_lottery \<Rightarrow>
               (if non_winners previous_lottery \<noteq> []
                then Inr (map user_id (non_winners previous_lottery))
                else Inr [])))"

subsection \<open>Spot inventory\<close>

definition generate_spots :: "nat \<Rightarrow> nat \<Rightarrow> string list \<times> string list" where
  "generate_spots n_car n_moto =
     (map (\<lambda>i. ''C-'' @ fmt_0d 2 (int (i + 1))) [0..<n_car],
      map (\<lambda>i. ''M-'' @ fmt_0d 2 (int (i + 1))) [0..<n_moto])"

subsection \<open>Resolving users, with the cache\<close>

text \<open>The first loop of execute_lottery. The cache is the dictionary user_cache; a request
  whose user is not found is skipped.\<close>

fun resolve_users :: "(string \<times> User) list \<Rightarrow> (string \<rightharpoonup> User) \<Rightarrow> Request list
    \<Rightarrow> candidate list" where
  "resolve_users coll user_cache [] = []"
| "resolve_users coll user_cache (req # reqs) =
     (case user_cache (rq_user_id req) of
        Some u \<Rightarrow>
          \<lparr>request = req, user = u, priority_score = 0\<rparr> # resolve_users coll user_cache reqs
      | None \<Rightarrow>
          (case get_user coll (rq_user_id req) of
             None \<Rightarrow> resolve_users coll user_cache reqs
           | Some user_obj \<Rightarrow>
               \<lparr>request = req, user = user_obj, priority_score = 0\<rparr>
                 # resolve_users coll (user_cache(rq_user_id req \<mapsto> user_obj)) reqs))"

subsection \<open>Priority scorer\<close>

text \<open>The second loop: three independent increments of the score.\<close>

definition score_item :: "string list \<Rightarrow> candidate \<Rightarrow> candidate" where
  "score_item previous_non_winners_ids item =
     (let req = request item; usr = user item;
          item1 = (if rq_disability req
                   then item\<lparr>priority_score := priority_score item + 1000\<rparr> else item);
          item2 = (if u_id usr \<in> set previous_non_winners_ids
                   then item1\<lparr>priority_score := priority_score item1 + 500\<rparr> else item1);
          item3 = (if rq_pay req
                   then item2\<lparr>priority_score := priority_score item2 + 100\<rparr> else item2)
      in item3)"

subsection \<open>Ordering: stable descending sort, tiers, shuffle within a tier\<close>

text \<open>\<^verbatim>\<open>list.sort(key=..., reverse=True)\<close> is stable and descending.\<close>

definition sort_desc :: "candidate list \<Rightarrow> candidate list" where
  "sort_desc xs = sort_key (\<lambda>x. - priority_score x) xs"

text \<open>\<^verbatim>\<open>itertools.groupby\<close>: maximal runs of consecutive elements with the same key.\<close>

function groupby :: "('a \<Rightarrow> 'k) \<Rightarrow> 'a list \<Rightarrow> ('k \<times> 'a list) list" where
  "groupby key [] = []"
| "groupby key (x # xs) =
     (key x, x # takeWhile (\<lambda>y. key y = key x) xs)
       # groupby key (dropWhile (\<lambda>y. key y = key x) xs)"
  by pat_completeness auto
termination
  by (relation "measure (\<lambda>(key, xs). length xs)")
     (auto simp: length_dropWhile_le less_Suc_eq_le)

text \<open>\<^verbatim>\<open>random.shuffle\<close>: for i from len-1 down to 1, draw j below i+1 and swap positions i
  and j. A draw is taken from the front of the list of draws (0 once it is exhausted).\<close>

definition randbelow :: "nat \<Rightarrow> nat list \<Rightarrow> nat \<times> nat list" where
  "randbelow n rs = (case rs of [] \<Rightarrow> (0, []) | r # rs' \<Rightarrow> (r mod n, rs'))"

fun shuffle_loop :: "nat \<Rightarrow> nat list \<Rightarrow> 'a list \<Rightarrow> 'a list \<times> nat list" where
  "shuffle_loop 0 rs xs = (xs, rs)"
| "shuffle_loop (Suc k) rs xs =
     (let i = Suc k; (j, rs') = randbelow (i + 1) rs
      in shuffle_loop k rs' (xs[i := xs ! j, j := xs ! i]))"

definition shuffle :: "nat list \<Rightarrow> 'a list \<Rightarrow> 'a list \<times> nat list" where
  "shuffle rs xs = shuffle_loop (length xs - 1) rs xs"

text \<open>The loop over the groups: each group is shuffled and appended.\<close>

fun shuffle_groups :: "nat list \<Rightarrow> ('k \<times> 'a list) list \<Rightarrow> 'a list" where
  "shuffle_groups rs [] = []"
| "shuffle_groups rs ((score, group_list) # gs) =
     (let (shuffled, rs') = shuffle rs group_list in shuffled @ shuffle_groups rs' gs)"

definition final_sorted_requests :: "nat list \<Rightarrow> candidate list \<Rightarrow> candidate list" where
  "final_sorted_requests rs scored = shuffle_groups rs (groupby priority_score (sort_desc scored))"

subsection \<open>Assignment walk\<close>

definition vehicle_str :: "vehicle \<Rightarrow> string" where
  "vehicle_str v = (case v of Automovil \<Rightarrow> ''automovil'' | Motocicleta \<Rightarrow> ''motocicleta'')"

text \<open>\<^verbatim>\<open>f"{str(user.id)}_{req.vehicle_type}"\<close>\<close>

definition assignment_key :: "candidate \<Rightarrow> string" where
  "assignment_key item = u_id (user item) @ ''_'' @ vehicle_str (rq_vehicle_type (request item))"

definition participant :: "candidate \<Rightarrow> string option \<Rightarrow> LotteryParticipantResult" where
  "participant item s =
     \<lparr>user_id = u_id (user item), cc = u_cc (user item), full_name = u_full_name (user item),
      apartment = u_apartment (user item), vehicle_type = rq_vehicle_type (request item),
      license_plate = rq_license_plate (request item), spot = s,
      request_id = rq_id (request item)\<rparr>"

record alloc =
  car_spots :: "string list"
  moto_spots :: "string list"
  a_winners :: "LotteryParticipantResult list"
  a_non_winners :: "LotteryParticipantResult list"
  assigned_users_and_vehicle_types :: "string set"

text \<open>Lines 155 to 159: the spot popped from the front of the matching sequence, if any.\<close>

definition pop_spot :: "vehicle \<Rightarrow> alloc \<Rightarrow> string option \<times> alloc" where
  "pop_spot v st =
     (if v = Automovil \<and> car_spots st \<noteq> []
      then (Some (hd (car_spots st)), st\<lparr>car_spots := tl (car_spots st)\<rparr>)
      else if v = Motocicleta \<and> moto_spots st \<noteq> []
      then (Some (hd (moto_spots st)), st\<lparr>moto_spots := tl (moto_spots st)\<rparr>)
      else (None, st))"

text \<open>Truth value of \<^verbatim>\<open>spot_assigned\<close>: None and the empty string are false.\<close>

definition truthy :: "string option \<Rightarrow> bool" where
  "truthy s = (case s of None \<Rightarrow> False | Some t \<Rightarrow> t \<noteq> [])"

text \<open>One iteration of the loop of lines 138 to 183.\<close>

definition assign_step :: "alloc \<Rightarrow> candidate \<Rightarrow> alloc" where
  "assign_step st item =
     (if assignment_key item \<in> assigned_users_and_vehicle_types st
      then st\<lparr>a_non_winners := a_non_winners st @ [participant item None]\<rparr>
      else
        (let (spot_assigned, st') = pop_spot (rq_vehicle_type (request item)) st
         in if truthy spot_assigned
            then st'\<lparr>a_winners := a_winners st' @ [participant item spot_assigned],
                     assigned_users_and_vehicle_types :=
                       insert (assignment_key item) (assigned_users_and_vehicle_types st')\<rparr>
            else st'\<lparr>a_non_winners := a_non_winners st' @ [participant item None]\<rparr>))"

definition assign_all :: "alloc \<Rightarrow> candidate list \<Rightarrow> alloc" where
  "assign_all st items = foldl assign_step st items"

definition init_alloc :: "nat \<Rightarrow> nat \<Rightarrow> alloc" where
  "init_alloc n_car n_moto =
     (let (cs, ms) = generate_spots n_car n_moto
      in \<lparr>car_spots = cs, moto_spots = ms, a_winners = [], a_non_winners = [],
          assigned_users_and_vehicle_types = {}\<rparr>)"

subsection \<open>execute_lottery\<close>

text \<open>The candidates of a run: the accepted requests loaded, resolved and scored.\<close>

definition load_candidates :: "db \<Rightarrow> string \<Rightarrow> candidate list" where
  "load_candidates d p = resolve_users (users d) Map.empty (find_many_accepted (requests d) p 1000)"

text \<open>The whole operation. The result is the returned document or the raised error (an
  error of create is raised on), and the stores after the call. Sending the notifications
  reads the users and writes to no store; every failure of a send is caught where it
  happens.\<close>

definition execute_lottery :: "env \<Rightarrow> LotteryCreate \<Rightarrow> db \<Rightarrow> (error + LotteryResult) \<times> db" where
  "execute_lottery e lottery_data d =
     (case find_one_period (lotteries d) (lc_period lottery_data) of
        Some existing_lottery \<Rightarrow> (Inl (Conflict (lc_period lottery_data)), d)
      | None \<Rightarrow>
          (let accepted_requests = find_many_accepted (requests d) (lc_period lottery_data) 1000
           in if accepted_requests = [] then
                (let (created_lottery, coll) = create_lottery e
                       \<lparr>lr_id = None, period = lc_period lottery_data,
                        total_car_spots_offered = num_car_spots lottery_data,
                        total_moto_spots_offered = num_moto_spots lottery_data,
                        winners = [], non_winners = [], executed_at = now e\<rparr> (lotteries d)
                 in (created_lottery, d\<lparr>lotteries := coll\<rparr>))
              else
                (case get_previous_period_non_winners d (lc_period lottery_data) of
                   Inl err \<Rightarrow> (Inl err, d)
                 | Inr previous_non_winners_ids \<Rightarrow>
                     (let requests_with_user_info =
                            map (score_item previous_non_winners_ids)
                              (resolve_users (users d) Map.empty accepted_requests);
                          final = final_sorted_requests (draws e) requests_with_user_info;
                          st = assign_all
                                 (init_alloc (num_car_spots lottery_data) (num_moto_spots lottery_data))
                                 final;
                          (created_lottery, coll) = create_lottery e
                            \<lparr>lr_id = None, period = lc_period lottery_data,
                             total_car_spots_offered = num_car_spots lottery_data,
                             total_moto_spots_offered = num_moto_spots lottery_data,
                             winners = a_winners st, non_winners = a_non_winners st,
                             executed_at = now e\<rparr> (lotteries d)
                      in (created_lottery, d\<lparr>lotteries := coll\<rparr>)))))"

section \<open>Auxiliary notions and example stores\<close>

text \<open>The value of a string of decimal digits, as \<open>py_int\<close> computes it.\<close>

definition dec_val :: "string \<Rightarrow> nat" where
  "dec_val s = foldl (\<lambda>a c. 10 * a + digit_val c) 0 s"

text \<open>A small condominium: two residents, and requests for the period 2025-07.\<close>

definition ex_ana :: User where
  "ex_ana = \<lparr>u_id = ''u1'', u_full_name = ''Ana'', u_cc = ''100001'', u_email = ''ana@park.net'',
     u_apartment = ''T1-101''\<rparr>"

definition ex_luis :: User where
  "ex_luis = \<lparr>u_id = ''u2'', u_full_name = ''Luis'', u_cc = ''100002'', u_email = ''luis@park.net'',
     u_apartment = ''T1-102''\<rparr>"

definition ex_req :: "string \<Rightarrow> string \<Rightarrow> vehicle \<Rightarrow> bool \<Rightarrow> bool \<Rightarrow> Request" where
  "ex_req rid uid v dis paid =
     \<lparr>rq_id = rid, rq_user_id = uid, rq_vehicle_type = v, rq_license_plate = ''ABC123'',
      rq_disability = dis, rq_pay = paid, rq_status = Accepted, rq_lottery_period = ''2025-07''\<rparr>"

definition ex_users :: "(string \<times> User) list" where
  "ex_users = [(''u1'', ex_ana), (''u2'', ex_luis)]"

definition ex_env :: env where
  "ex_env = \<lparr>now = 1751328000, inserted_id = Some ''L1'', found_after_insert = True,
     draws = [1, 0]\<rparr>"

definition ex_create :: "nat \<Rightarrow> nat \<Rightarrow> LotteryCreate" where
  "ex_create c m = \<lparr>lc_period = ''2025-07'', num_car_spots = c, num_moto_spots = m\<rparr>"

text \<open>A request to run the lottery with 2^63 car spots; the schema accepts it.\<close>

definition ex_create_huge :: LotteryCreate where
  "ex_create_huge = \<lparr>lc_period = ''2025-07'', num_car_spots = 2 ^ 63, num_moto_spots = 3\<rparr>"

text \<open>A stored result of the period 2025-06 in which Ana lost.\<close>

definition ex_june :: LotteryResult where
  "ex_june = \<lparr>lr_id = Some ''L0'', period = ''2025-06'', total_car_spots_offered = 0,
     total_moto_spots_offered = 0, winners = [],
     non_winners = [\<lparr>user_id = ''u1'', cc = ''100001'', full_name = ''Ana'', apartment = ''T1-101'',
        vehicle_type = Automovil, license_plate = ''ABC123'', spot = None, request_id = ''r0''\<rparr>],
     executed_at = 1748736000\<rparr>"

text \<open>No request at all.\<close>

definition ex_db_empty :: db where
  "ex_db_empty = \<lparr>lotteries = [ex_june], requests = [], users = ex_users\<rparr>"

text \<open>Ana with two accepted car requests (a duplicate), one of them with the disability flag.\<close>

definition ex_db_dup :: db where
  "ex_db_dup = \<lparr>lotteries = [],
     requests = [ex_req ''r1'' ''u1'' Automovil False True, ex_req ''r2'' ''u1'' Automovil True False],
     users = ex_users\<rparr>"

text \<open>Ana and Luis with one car request each, and a request of an unknown resident.\<close>

definition ex_db_two :: db where
  "ex_db_two = \<lparr>lotteries = [ex_june],
     requests = [ex_req ''r1'' ''u1'' Automovil False True, ex_req ''r2'' ''u2'' Automovil True False,
                 ex_req ''r3'' ''u9'' Motocicleta False False],
     users = ex_users\<rparr>"

text \<open>The entries and results that the runs on these stores produce.\<close>

definition ex_entry :: "string \<Rightarrow> User \<Rightarrow> string option \<Rightarrow> LotteryParticipantResult" where
  "ex_entry rid u s =
     \<lparr>user_id = u_id u, cc = u_cc u, full_name = u_full_name u, apartment = u_apartment u,
      vehicle_type = Automovil, license_plate = ''ABC123'', spot = s, request_id = rid\<rparr>"

definition ex_result :: "nat \<Rightarrow> nat \<Rightarrow> LotteryParticipantResult list \<Rightarrow> LotteryParticipantResult list
    \<Rightarrow> LotteryResult" where
  "ex_result c m ws ls =
     \<lparr>lr_id = Some ''L1'', period = ''2025-07'', total_car_spots_offered = c,
      total_moto_spots_offered = m, winners = ws, non_winners = ls, executed_at = 1751328000\<rparr>"

definition ex_two_one :: LotteryResult where
  "ex_two_one = ex_result 1 1 [ex_entry ''r2'' ex_luis (Some ''C-01'')] [ex_entry ''r1'' ex_ana None]"

definition ex_two_all :: LotteryResult where
  "ex_two_all = ex_result 2 1
     [ex_entry ''r2'' ex_luis (Some ''C-01''), ex_entry ''r1'' ex_ana (Some ''C-02'')] []"

definition ex_dup_result :: LotteryResult where
  "ex_dup_result = ex_result 5 0 [ex_entry ''r2'' ex_ana (Some ''C-01'')] [ex_entry ''r1'' ex_ana None]"

definition ex_cand :: "string \<Rightarrow> string \<Rightarrow> User \<Rightarrow> bool \<Rightarrow> bool \<Rightarrow> int \<Rightarrow> candidate" where
  "ex_cand rid uid u dis paid sc =
     \<lparr>request = ex_req rid uid Automovil dis paid, user = u, priority_score = sc\<rparr>"

definition ex_final :: "candidate list" where
  "ex_final = [ex_cand ''r2'' ''u2'' ex_luis True False 1000, ex_cand ''r1'' ''u1'' ex_ana False True 600]"

text \<open>A large condominium: n residents with one accepted car request each.\<close>

definition ex_resident :: "nat \<Rightarrow> User" where
  "ex_resident i = \<lparr>u_id = str_nat i, u_full_name = ''Resident'', u_cc = ''100000'',
     u_email = ''resident@park.net'', u_apartment = ''T2-201''\<rparr>"

definition ex_db_many :: "nat \<Rightarrow> db" where
  "ex_db_many n = \<lparr>lotteries = [],
     requests = map (\<lambda>i. ex_req (str_nat i) (str_nat i) Automovil False False) [0..<n],
     users = map (\<lambda>i. (str_nat i, ex_resident i)) [0..<n]\<rparr>"

definition ex_many_outcome :: "error + LotteryResult" where
  "ex_many_outcome = fst (execute_lottery ex_env (ex_create 1 0) (ex_db_many 1001))"

text \<open>Notions used to state the invariants of the assignment walk.\<close>

abbreviation vt :: "candidate \<Rightarrow> vehicle" where
  "vt c \<equiv> rq_vehicle_type (request c)"

definition spots_of :: "vehicle \<Rightarrow> alloc \<Rightarrow> string list" where
  "spots_of v st = (case v of Automovil \<Rightarrow> car_spots st | Motocicleta \<Rightarrow> moto_spots st)"


definition no_empty_spot :: "alloc \<Rightarrow> bool" where
  "no_empty_spot st = ([] \<notin> set (car_spots st) \<and> [] \<notin> set (moto_spots st))"

text \<open>The assignment key of a recorded entry.\<close>

definition result_key :: "LotteryParticipantResult \<Rightarrow> string" where
  "result_key w = user_id w @ ''_'' @ vehicle_str (vehicle_type w)"

definition keys_distinct :: "alloc \<Rightarrow> bool" where
  "keys_distinct st =
     (assigned_users_and_vehicle_types st = set (map result_key (a_winners st))
      \<and> distinct (map result_key (a_winners st)))"

definition spots_recorded :: "alloc \<Rightarrow> bool" where
  "spots_recorded st =
     (list_all (\<lambda>w. spot w \<noteq> None) (a_winners st) \<and> list_all (\<lambda>l. spot l = None) (a_non_winners st))"

text \<open>All spot identifiers of a state: those given to winners and those still free.\<close>

definition spots_view :: "alloc \<Rightarrow> string option list" where
  "spots_view st = map spot (a_winners st) @ map Some (car_spots st) @ map Some (moto_spots st)"


text \<open>The recorded entries of a state with the spot blanked: who was recorded, whatever the
  outcome.\<close>

definition erase_spot :: "LotteryParticipantResult \<Rightarrow> LotteryParticipantResult" where
  "erase_spot w = w\<lparr>spot := None\<rparr>"

definition entries :: "alloc \<Rightarrow> LotteryParticipantResult list" where
  "entries st = map erase_spot (a_winners st @ a_non_winners st)"

text \<open>The state after the assignment walk of a run whose boost list is \<open>ids\<close>.\<close>

definition walk :: "env \<Rightarrow> LotteryCreate \<Rightarrow> db \<Rightarrow> string list \<Rightarrow> alloc" where
  "walk e lottery_data d ids =
     assign_all (init_alloc (num_car_spots lottery_data) (num_moto_spots lottery_data))
       (final_sorted_requests (draws e)
          (map (score_item ids) (load_candidates d (lc_period lottery_data))))"

section \<open>Decimal strings\<close>

lemma digit_val_digit_char: "d < 10 \<Longrightarrow> digit_val (digit_char d) = d"
  by (simp add: digit_val_def digit_char_def)

lemma is_digit_digit_char: "d < 10 \<Longrightarrow> is_digit (digit_char d)"
  by (simp add: is_digit_def digit_char_def)

lemma str_nat_nonempty: "str_nat n \<noteq> []"
  by (subst str_nat.simps) simp

lemma str_nat_digits: "list_all is_digit (str_nat n)"
proof (induction n rule: str_nat.induct)
  case (1 n)
  show ?case
  proof (cases "n < 10")
    case True
    then show ?thesis by (subst str_nat.simps) (simp add: is_digit_digit_char)
  next
    case False
    with 1 show ?thesis by (subst str_nat.simps) (simp add: is_digit_digit_char)
  qed
qed

lemma dec_val_snoc: "dec_val (s @ [c]) = 10 * dec_val s + digit_val c"
  by (simp add: dec_val_def)

lemma dec_val_str_nat: "dec_val (str_nat n) = n"
proof (induction n rule: str_nat.induct)
  case (1 n)
  show ?case
  proof (cases "n < 10")
    case True
    then show ?thesis by (subst str_nat.simps) (simp add: dec_val_def digit_val_digit_char)
  next
    case False
    with 1 show ?thesis
      by (subst str_nat.simps) (simp add: dec_val_snoc digit_val_digit_char)
  qed
qed

lemma foldl_zeros: "foldl (\<lambda>a c. 10 * a + digit_val c) 0 (replicate k (CHR ''0'')) = 0"
  by (induction k) (simp_all add: digit_val_def)

lemma dec_val_zfill: "dec_val (zfill w s) = dec_val s"
  by (simp add: zfill_def dec_val_def foldl_zeros)

lemma zfill_digits: "list_all is_digit s \<Longrightarrow> list_all is_digit (zfill w s)"
  by (auto simp: zfill_def list_all_iff is_digit_def)

lemma fmt_0d_digits: "0 \<le> i \<Longrightarrow> list_all is_digit (fmt_0d w i)"
  by (simp add: fmt_0d_def zfill_digits str_nat_digits)

lemma fmt_0d_nonempty: "fmt_0d w i \<noteq> []"
  by (simp add: fmt_0d_def zfill_def str_nat_nonempty)

lemma py_int_fmt_0d: "0 \<le> i \<Longrightarrow> py_int (fmt_0d w i) = Some i"
  using dec_val_zfill [of w "str_nat (nat i)"]
  by (simp add: py_int_def fmt_0d_nonempty fmt_0d_digits)
     (simp add: fmt_0d_def dec_val_def dec_val_str_nat [unfolded dec_val_def])

lemma fmt_0d_inj: "0 \<le> i \<Longrightarrow> 0 \<le> j \<Longrightarrow> fmt_0d w i = fmt_0d w j \<Longrightarrow> i = j"
  by (metis py_int_fmt_0d option.inject)

lemma dash_not_digit: "list_all is_digit s \<Longrightarrow> CHR ''-'' \<notin> set s"
  by (auto simp: list_all_iff is_digit_def)

lemma split_on_no_sep: "sep \<notin> set s \<Longrightarrow> split_on sep s = [s]"
  by (induction s) auto

lemma split_on_append: "sep \<notin> set a \<Longrightarrow> split_on sep (a @ sep # b) = a # split_on sep b"
  by (induction a) auto

section \<open>The carry-forward resolver\<close>

lemma previous_period_period_str:
  assumes "0 \<le> y" "0 \<le> m"
  shows "previous_period (period_str y m) =
           Inr (if m = 1 then period_str (y - 1) 12 else period_str y (m - 1))"
proof -
  have "split_on (CHR ''-'') (period_str y m) = [fmt_0d 4 y, fmt_0d 2 m]"
    using assms
    by (simp add: period_str_def split_on_append split_on_no_sep dash_not_digit fmt_0d_digits)
  then show ?thesis
    using assms by (simp add: previous_period_def py_int_fmt_0d)
qed

lemma resolver_set:
  "previous_period p = Inr q \<Longrightarrow>
     \<exists>ids. get_previous_period_non_winners d p = Inr ids \<and>
       set ids = (case find_one_period (lotteries d) q of
                    None \<Rightarrow> {} | Some l \<Rightarrow> user_id ` set (non_winners l))"
  by (simp add: get_previous_period_non_winners_def split: option.splits)

lemma score_item_fields [simp]:
  "request (score_item ids c) = request c" "user (score_item ids c) = user c"
  by (simp_all add: score_item_def Let_def)

lemma score_item_value:
  "priority_score (score_item ids c) =
     priority_score c + (if rq_disability (request c) then 1000 else 0)
       + (if u_id (user c) \<in> set ids then 500 else 0) + (if rq_pay (request c) then 100 else 0)"
  by (simp add: score_item_def Let_def)

section \<open>The priority scorer\<close>

lemma resolve_users_score0:
  "c \<in> set (resolve_users coll user_cache reqs) \<Longrightarrow> priority_score c = 0"
  by (induction reqs arbitrary: user_cache) (auto split: option.splits)

text \<open>
  Claim C2. For every candidate of a run (an element of the list that the resolving loop
  builds), the score after the scoring loop is 1000 if the request's disability flag is set,
  plus 500 if the resident id is in the previous-period non-winner list, plus 100 if the
  dues-paid flag is set, and 0 when none holds; the right-hand side reads nothing else, and
  scoring changes neither the request nor the resident of the candidate.
\<close>

theorem priority_scorer:
  assumes "c \<in> set (resolve_users coll user_cache reqs)"
  shows "priority_score (score_item previous_non_winners_ids c) =
           (if rq_disability (request c) then 1000 else 0)
           + (if u_id (user c) \<in> set previous_non_winners_ids then 500 else 0)
           + (if rq_pay (request c) then 100 else 0)
         \<and> request (score_item previous_non_winners_ids c) = request c
         \<and> user (score_item previous_non_winners_ids c) = user c"
  using resolve_users_score0 [OF assms] by (simp add: score_item_value)

theorem priority_scorer_witness:
  "\<lparr>request = ex_req ''r2'' ''u1'' Automovil True False, user = ex_ana, priority_score = 0\<rparr>
     \<in> set (resolve_users ex_users Map.empty
              [ex_req ''r1'' ''u1'' Automovil False True, ex_req ''r2'' ''u1'' Automovil True False])
   \<and> priority_score (score_item [''u1'']
        \<lparr>request = ex_req ''r2'' ''u1'' Automovil True False, user = ex_ana, priority_score = 0\<rparr>)
      = 1500"
proof -
  have mem: "\<lparr>request = ex_req ''r2'' ''u1'' Automovil True False, user = ex_ana, priority_score = 0\<rparr>
     \<in> set (resolve_users ex_users Map.empty
              [ex_req ''r1'' ''u1'' Automovil False True, ex_req ''r2'' ''u1'' Automovil True False])"
    by (simp add: ex_users_def ex_req_def get_user_def)
  from priority_scorer [OF mem, of "[''u1'']"] mem show ?thesis
    by (simp add: ex_req_def ex_ana_def)
qed

section \<open>The guard and the empty run\<close>

text \<open>
  Claim C3. When a result is already stored for the period, execute_lottery raises the
  Conflict error and the stores after the call are the stores before it: the existing result
  is untouched and nothing is inserted.
\<close>

theorem conflict_keeps_state:
  assumes "find_one_period (lotteries d) (lc_period lottery_data) = Some existing"
  shows "execute_lottery e lottery_data d = (Inl (Conflict (lc_period lottery_data)), d)"
  using assms by (simp add: execute_lottery_def)

theorem conflict_keeps_state_witness:
  "find_one_period (lotteries (ex_db_two\<lparr>lotteries := [ex_june\<lparr>period := ''2025-07''\<rparr>]\<rparr>))
       (lc_period (ex_create 5 3)) = Some (ex_june\<lparr>period := ''2025-07''\<rparr>)
   \<and> execute_lottery ex_env (ex_create 5 3) (ex_db_two\<lparr>lotteries := [ex_june\<lparr>period := ''2025-07''\<rparr>]\<rparr>)
       = (Inl (Conflict ''2025-07''), ex_db_two\<lparr>lotteries := [ex_june\<lparr>period := ''2025-07''\<rparr>]\<rparr>)"
proof -
  have h: "find_one_period (lotteries (ex_db_two\<lparr>lotteries := [ex_june\<lparr>period := ''2025-07''\<rparr>]\<rparr>))
       (lc_period (ex_create 5 3)) = Some (ex_june\<lparr>period := ''2025-07''\<rparr>)"
    by (simp add: find_one_period_def ex_create_def)
  from conflict_keeps_state [OF h, of ex_env] h show ?thesis
    by (simp add: ex_create_def)
qed

text \<open>The empty run when the storage takes the document: with no stored result for the
  period, no accepted request, both totals below 2^63 and an insert that succeeds, the empty
  result with the offered totals as supplied is stored and returned.\<close>

lemma empty_run_stored:
  assumes "find_one_period (lotteries d) (lc_period lottery_data) = None"
    and "filter (\<lambda>r. rq_lottery_period r = lc_period lottery_data \<and> rq_status r = Accepted)
           (requests d) = []"
    and "int (num_car_spots lottery_data) < 2 ^ 63" "int (num_moto_spots lottery_data) < 2 ^ 63"
    and "inserted_id e = Some oid" "found_after_insert e"
  shows "execute_lottery e lottery_data d =
           (Inr \<lparr>lr_id = Some oid, period = lc_period lottery_data,
                 total_car_spots_offered = num_car_spots lottery_data,
                 total_moto_spots_offered = num_moto_spots lottery_data,
                 winners = [], non_winners = [], executed_at = now e\<rparr>,
            d\<lparr>lotteries := lotteries d @
                 [\<lparr>lr_id = Some oid, period = lc_period lottery_data,
                   total_car_spots_offered = num_car_spots lottery_data,
                   total_moto_spots_offered = num_moto_spots lottery_data,
                   winners = [], non_winners = [], executed_at = now e\<rparr>]\<rparr>)"
  using assms by (simp add: execute_lottery_def find_many_accepted_def create_lottery_def Let_def)

lemma empty_run_stored_example:
  "execute_lottery ex_env (ex_create 5 3) ex_db_empty =
       (Inr \<lparr>lr_id = Some ''L1'', period = ''2025-07'', total_car_spots_offered = 5,
             total_moto_spots_offered = 3, winners = [], non_winners = [],
             executed_at = 1751328000\<rparr>,
        ex_db_empty\<lparr>lotteries := [ex_june,
             \<lparr>lr_id = Some ''L1'', period = ''2025-07'', total_car_spots_offered = 5,
              total_moto_spots_offered = 3, winners = [], non_winners = [],
              executed_at = 1751328000\<rparr>]\<rparr>)"
proof -
  have h1: "find_one_period (lotteries ex_db_empty) (lc_period (ex_create 5 3)) = None"
    by (simp add: find_one_period_def ex_db_empty_def ex_create_def ex_june_def)
  have h2: "filter (\<lambda>r. rq_lottery_period r = lc_period (ex_create 5 3) \<and> rq_status r = Accepted)
        (requests ex_db_empty) = []"
    by (simp add: ex_db_empty_def)
  have h3: "int (num_car_spots (ex_create 5 3)) < 2 ^ 63" "int (num_moto_spots (ex_create 5 3)) < 2 ^ 63"
    "inserted_id ex_env = Some ''L1''" "found_after_insert ex_env"
    by (simp_all add: ex_create_def ex_env_def)
  from empty_run_stored [OF h1 h2 h3] show ?thesis
    by (simp add: ex_create_def ex_env_def ex_db_empty_def)
qed

text \<open>
  Claim C9 says that for every period with zero accepted requests execute_lottery does not
  fail and stores and returns the empty result with the offered totals as supplied. The code
  does not do so for every accepted input: the schema bounds the counts from below only, and
  when an offered total is 2^63 or more (no stored result for the period, no accepted
  request) the insert raises OverflowError, execute_lottery fails with it and the stores are
  left as they were: nothing is persisted.
\<close>

theorem empty_run_overflow:
  assumes "find_one_period (lotteries d) (lc_period lottery_data) = None"
    and "filter (\<lambda>r. rq_lottery_period r = lc_period lottery_data \<and> rq_status r = Accepted)
           (requests d) = []"
    and "2 ^ 63 \<le> int (num_car_spots lottery_data) \<or> 2 ^ 63 \<le> int (num_moto_spots lottery_data)"
  shows "execute_lottery e lottery_data d = (Inl OverflowError, d)"
  using assms
  by (auto simp: execute_lottery_def find_many_accepted_def create_lottery_def Let_def)

theorem empty_run_overflow_witness:
  "find_one_period (lotteries ex_db_empty) (lc_period ex_create_huge) = None
   \<and> filter (\<lambda>r. rq_lottery_period r = lc_period ex_create_huge \<and> rq_status r = Accepted)
        (requests ex_db_empty) = []
   \<and> 2 ^ 63 \<le> int (num_car_spots ex_create_huge)
   \<and> execute_lottery ex_env ex_create_huge ex_db_empty = (Inl OverflowError, ex_db_empty)"
proof -
  have h1: "find_one_period (lotteries ex_db_empty) (lc_period ex_create_huge) = None"
    by (simp add: find_one_period_def ex_db_empty_def ex_create_huge_def ex_june_def)
  have h2: "filter (\<lambda>r. rq_lottery_period r = lc_period ex_create_huge \<and> rq_status r = Accepted)
        (requests ex_db_empty) = []"
    by (simp add: ex_db_empty_def)
  have h3: "2 ^ 63 \<le> int (num_car_spots ex_create_huge)"
    by (simp add: ex_create_huge_def)
  from h3 have "2 ^ 63 \<le> int (num_car_spots ex_create_huge)
      \<or> 2 ^ 63 \<le> int (num_moto_spots ex_create_huge)" ..
  from empty_run_overflow [OF h1 h2 this, of ex_env] h1 h2 h3 show ?thesis
    by blast
qed

section \<open>Ordering of the candidates\<close>

lemma randbelow_less: "0 < n \<Longrightarrow> fst (randbelow n rs) < n"
  by (simp add: randbelow_def split: list.splits)

lemma shuffle_loop_mset:
  "k < length xs \<Longrightarrow> mset (fst (shuffle_loop k rs xs)) = mset xs"
proof (induction k arbitrary: rs xs)
  case 0
  then show ?case by simp
next
  case (Suc k)
  obtain j rs' where r: "randbelow (Suc k + 1) rs = (j, rs')"
    by (cases "randbelow (Suc k + 1) rs")
  have "j < Suc k + 1"
    using randbelow_less [of "Suc k + 1" rs] r by simp
  with Suc.prems have j: "j < length xs" by simp
  let ?xs' = "xs[Suc k := xs ! j, j := xs ! Suc k]"
  have m: "mset ?xs' = mset xs"
    using mset_swap [of j xs "Suc k"] j Suc.prems by simp
  have "k < length ?xs'" using Suc.prems by simp
  from Suc.IH [OF this, of rs'] m
  have "mset (fst (shuffle_loop k rs' ?xs')) = mset xs" by simp
  moreover have "shuffle_loop (Suc k) rs xs = shuffle_loop k rs' ?xs'"
    using r by (simp del: One_nat_def add: Let_def)
  ultimately show ?case by simp
qed

lemma shuffle_mset: "mset (fst (shuffle rs xs)) = mset xs"
proof (cases xs)
  case Nil
  then show ?thesis by (simp add: shuffle_def)
next
  case (Cons a list)
  then show ?thesis by (simp add: shuffle_def shuffle_loop_mset)
qed

lemma concat_groupby: "concat (map snd (groupby key xs)) = xs"
  by (induction key xs rule: groupby.induct) simp_all

lemma groupby_same_key:
  "(k, g) \<in> set (groupby key xs) \<Longrightarrow> x \<in> set g \<Longrightarrow> key x = k"
  by (induction key xs rule: groupby.induct) (auto dest: set_takeWhileD)

lemma map_const_replicate: "(\<And>x. x \<in> set ys \<Longrightarrow> f x = k) \<Longrightarrow> map f ys = replicate (length ys) k"
  by (induction ys) auto

lemma shuffle_same_key:
  assumes "\<And>x. x \<in> set g \<Longrightarrow> f x = k"
  shows "map f (fst (shuffle rs g)) = map f g"
proof -
  have s: "set (fst (shuffle rs g)) = set g" "length (fst (shuffle rs g)) = length g"
    using shuffle_mset [of rs g] by (auto dest: mset_eq_setD mset_eq_length)
  have "map f (fst (shuffle rs g)) = replicate (length (fst (shuffle rs g))) k"
    using assms s(1) by (intro map_const_replicate) simp
  moreover have "map f g = replicate (length g) k"
    using assms by (intro map_const_replicate) simp
  ultimately show ?thesis using s(2) by simp
qed

lemma shuffle_groups_mset: "mset (shuffle_groups rs gs) = mset (concat (map snd gs))"
proof (induction rs gs rule: shuffle_groups.induct)
  case (1 rs)
  then show ?case by simp
next
  case (2 rs score group_list gs)
  obtain sh rs' where s: "shuffle rs group_list = (sh, rs')"
    by (cases "shuffle rs group_list")
  with shuffle_mset [of rs group_list] have "mset sh = mset group_list" by simp
  moreover have "mset (shuffle_groups rs' gs) = mset (concat (map snd gs))"
    by (rule 2 [OF refl s [symmetric]])
  ultimately show ?case using s by simp
qed

lemma shuffle_groups_keys:
  assumes "\<And>k g x. (k, g) \<in> set gs \<Longrightarrow> x \<in> set g \<Longrightarrow> f x = k"
  shows "map f (shuffle_groups rs gs) = map f (concat (map snd gs))"
  using assms
proof (induction rs gs rule: shuffle_groups.induct)
  case (1 rs)
  then show ?case by simp
next
  case (2 rs score group_list gs)
  obtain sh rs' where s: "shuffle rs group_list = (sh, rs')"
    by (cases "shuffle rs group_list")
  have "\<And>x. x \<in> set group_list \<Longrightarrow> f x = score"
    using "2.prems" [of score group_list] by simp
  then have "map f (fst (shuffle rs group_list)) = map f group_list"
    by (rule shuffle_same_key)
  with s have h: "map f sh = map f group_list" by simp
  have "\<And>k g x. (k, g) \<in> set gs \<Longrightarrow> x \<in> set g \<Longrightarrow> f x = k"
    using "2.prems" by auto
  then have "map f (shuffle_groups rs' gs) = map f (concat (map snd gs))"
    by (rule "2.IH" [OF refl s [symmetric]])
  with h s show ?case by simp
qed

lemma final_mset: "mset (final_sorted_requests rs scored) = mset scored"
  by (simp add: final_sorted_requests_def shuffle_groups_mset concat_groupby sort_desc_def)

lemma final_scores:
  "map priority_score (final_sorted_requests rs scored) = map priority_score (sort_desc scored)"
proof -
  have "map priority_score (shuffle_groups rs (groupby priority_score (sort_desc scored)))
      = map priority_score (concat (map snd (groupby priority_score (sort_desc scored))))"
    by (rule shuffle_groups_keys) (rule groupby_same_key)
  then show ?thesis
    by (simp add: final_sorted_requests_def concat_groupby)
qed

lemma final_descending:
  assumes "i \<le> j" "j < length (final_sorted_requests rs scored)"
  shows "priority_score (final_sorted_requests rs scored ! j)
           \<le> priority_score (final_sorted_requests rs scored ! i)"
proof -
  let ?f = "final_sorted_requests rs scored"
  have "sorted (map (\<lambda>x. - priority_score x) (sort_desc scored))"
    by (simp add: sort_desc_def)
  then have "sorted (map uminus (map priority_score (sort_desc scored)))"
    by (simp add: comp_def)
  then have "sorted (map uminus (map priority_score ?f))"
    by (simp add: final_scores)
  then have "map uminus (map priority_score ?f) ! i \<le> map uminus (map priority_score ?f) ! j"
    using assms by (intro sorted_nth_mono) simp_all
  with assms show ?thesis by simp
qed

section \<open>Invariants of the assignment walk\<close>

lemma spots_of_simps [simp]:
  "spots_of Automovil st = car_spots st" "spots_of Motocicleta st = moto_spots st"
  by (simp_all add: spots_of_def)

lemma assign_step_lose:
  assumes "assignment_key c \<in> assigned_users_and_vehicle_types st \<or> spots_of (vt c) st = []"
  shows "a_winners (assign_step st c) = a_winners st"
    and "a_non_winners (assign_step st c) = a_non_winners st @ [participant c None]"
    and "car_spots (assign_step st c) = car_spots st"
    and "moto_spots (assign_step st c) = moto_spots st"
    and "assigned_users_and_vehicle_types (assign_step st c) = assigned_users_and_vehicle_types st"
  using assms
  by (cases "vt c"; auto simp: assign_step_def pop_spot_def truthy_def)+

lemma assign_step_win_car:
  assumes "assignment_key c \<notin> assigned_users_and_vehicle_types st"
    and "vt c = Automovil" "car_spots st = s # rest" "s \<noteq> []"
  shows "a_winners (assign_step st c) = a_winners st @ [participant c (Some s)]"
    and "a_non_winners (assign_step st c) = a_non_winners st"
    and "car_spots (assign_step st c) = rest"
    and "moto_spots (assign_step st c) = moto_spots st"
    and "assigned_users_and_vehicle_types (assign_step st c) =
           insert (assignment_key c) (assigned_users_and_vehicle_types st)"
  using assms by (simp_all add: assign_step_def pop_spot_def truthy_def)

lemma assign_step_win_moto:
  assumes "assignment_key c \<notin> assigned_users_and_vehicle_types st"
    and "vt c = Motocicleta" "moto_spots st = s # rest" "s \<noteq> []"
  shows "a_winners (assign_step st c) = a_winners st @ [participant c (Some s)]"
    and "a_non_winners (assign_step st c) = a_non_winners st"
    and "car_spots (assign_step st c) = car_spots st"
    and "moto_spots (assign_step st c) = rest"
    and "assigned_users_and_vehicle_types (assign_step st c) =
           insert (assignment_key c) (assigned_users_and_vehicle_types st)"
  using assms by (simp_all add: assign_step_def pop_spot_def truthy_def)

text \<open>The three outcomes of one iteration when no spot identifier is the empty string.\<close>

lemma assign_step_cases [consumes 1, case_names lose win_car win_moto]:
  assumes "no_empty_spot st"
  obtains
    "assignment_key c \<in> assigned_users_and_vehicle_types st \<or> spots_of (vt c) st = []"
    "a_winners (assign_step st c) = a_winners st"
    "a_non_winners (assign_step st c) = a_non_winners st @ [participant c None]"
    "car_spots (assign_step st c) = car_spots st"
    "moto_spots (assign_step st c) = moto_spots st"
    "assigned_users_and_vehicle_types (assign_step st c) = assigned_users_and_vehicle_types st"
  | s rest where "assignment_key c \<notin> assigned_users_and_vehicle_types st"
      "vt c = Automovil" "car_spots st = s # rest" "s \<noteq> []"
      "a_winners (assign_step st c) = a_winners st @ [participant c (Some s)]"
      "a_non_winners (assign_step st c) = a_non_winners st"
      "car_spots (assign_step st c) = rest"
      "moto_spots (assign_step st c) = moto_spots st"
      "assigned_users_and_vehicle_types (assign_step st c) =
           insert (assignment_key c) (assigned_users_and_vehicle_types st)"
  | s rest where "assignment_key c \<notin> assigned_users_and_vehicle_types st"
      "vt c = Motocicleta" "moto_spots st = s # rest" "s \<noteq> []"
      "a_winners (assign_step st c) = a_winners st @ [participant c (Some s)]"
      "a_non_winners (assign_step st c) = a_non_winners st"
      "car_spots (assign_step st c) = car_spots st"
      "moto_spots (assign_step st c) = rest"
      "assigned_users_and_vehicle_types (assign_step st c) =
           insert (assignment_key c) (assigned_users_and_vehicle_types st)"
proof (cases "assignment_key c \<in> assigned_users_and_vehicle_types st \<or> spots_of (vt c) st = []")
  case True
  then show ?thesis using assign_step_lose [OF True] that(1) by blast
next
  case False
  then have k: "assignment_key c \<notin> assigned_users_and_vehicle_types st"
    and ne: "spots_of (vt c) st \<noteq> []" by simp_all
  show ?thesis
  proof (cases "vt c")
    case Automovil
    with ne obtain s rest where sp: "car_spots st = s # rest"
      by (cases "car_spots st") simp_all
    with assms have "s \<noteq> []" by (auto simp: no_empty_spot_def)
    from assign_step_win_car [OF k Automovil sp this] k Automovil sp \<open>s \<noteq> []\<close>
    show ?thesis by (intro that(2)) 
  next
    case Motocicleta
    with ne obtain s rest where sp: "moto_spots st = s # rest"
      by (cases "moto_spots st") simp_all
    with assms have "s \<noteq> []" by (auto simp: no_empty_spot_def)
    from assign_step_win_moto [OF k Motocicleta sp this] k Motocicleta sp \<open>s \<noteq> []\<close>
    show ?thesis by (intro that(3))
  qed
qed

lemma no_empty_spot_step: "no_empty_spot st \<Longrightarrow> no_empty_spot (assign_step st c)"
  by (cases rule: assign_step_cases [where c = c]) (auto simp: no_empty_spot_def)

lemma assign_all_Cons: "assign_all st (c # cs) = assign_all (assign_step st c) cs"
  by (simp add: assign_all_def)

lemma assign_all_Nil: "assign_all st [] = st"
  by (simp add: assign_all_def)

lemma no_empty_spot_all: "no_empty_spot st \<Longrightarrow> no_empty_spot (assign_all st cs)"
  by (induction cs arbitrary: st) (simp_all add: assign_all_Cons assign_all_Nil no_empty_spot_step)

text \<open>Every iteration records exactly one entry.\<close>

lemma assign_step_count:
  "length (a_winners (assign_step st c)) + length (a_non_winners (assign_step st c)) =
     Suc (length (a_winners st) + length (a_non_winners st))"
  by (auto simp: assign_step_def pop_spot_def Let_def split: prod.splits)

lemma assign_all_count:
  "length (a_winners (assign_all st cs)) + length (a_non_winners (assign_all st cs)) =
     length (a_winners st) + length (a_non_winners st) + length cs"
  by (induction cs arbitrary: st) (simp_all add: assign_all_Cons assign_all_Nil assign_step_count)

text \<open>Winners carry a spot, non-winners none.\<close>

lemma participant_simps [simp]:
  "spot (participant c s) = s" "user_id (participant c s) = u_id (user c)"
  "vehicle_type (participant c s) = vt c" "request_id (participant c s) = rq_id (request c)"
  by (simp_all add: participant_def)

lemma spots_recorded_step: "spots_recorded st \<Longrightarrow> spots_recorded (assign_step st c)"
  by (auto simp: spots_recorded_def assign_step_def pop_spot_def truthy_def Let_def
      split: prod.splits option.splits)

lemma spots_recorded_all: "spots_recorded st \<Longrightarrow> spots_recorded (assign_all st cs)"
  by (induction cs arbitrary: st) (simp_all add: assign_all_Cons assign_all_Nil spots_recorded_step)

text \<open>Spots move from the inventories to the winners and are never lost or repeated.\<close>

lemma spots_view_step:
  assumes "no_empty_spot st"
  shows "mset (spots_view (assign_step st c)) = mset (spots_view st)"
  using assms
proof (cases rule: assign_step_cases [where c = c])
  case lose
  then show ?thesis by (simp add: spots_view_def)
next
  case (win_car s rest)
  then show ?thesis by (simp add: spots_view_def)
next
  case (win_moto s rest)
  then show ?thesis by (simp add: spots_view_def)
qed

lemma spots_view_all:
  "no_empty_spot st \<Longrightarrow> mset (spots_view (assign_all st cs)) = mset (spots_view st)"
  by (induction cs arbitrary: st)
     (simp_all add: assign_all_Cons assign_all_Nil no_empty_spot_step spots_view_step)



text \<open>The keys of the winners are exactly the assigned keys, without repetition.\<close>

lemma result_key_participant [simp]: "result_key (participant c s) = assignment_key c"
  by (simp add: result_key_def assignment_key_def participant_def)

lemma keys_distinct_step: "keys_distinct st \<Longrightarrow> keys_distinct (assign_step st c)"
  by (auto simp: keys_distinct_def assign_step_def pop_spot_def Let_def split: prod.splits)

lemma keys_distinct_all: "keys_distinct st \<Longrightarrow> keys_distinct (assign_all st cs)"
  by (induction cs arbitrary: st) (simp_all add: assign_all_Cons assign_all_Nil keys_distinct_step)

lemma vehicle_str_last:
  "last (xs @ ''_'' @ vehicle_str v) = (case v of Automovil \<Rightarrow> CHR ''l'' | Motocicleta \<Rightarrow> CHR ''a'')"
  by (cases v) (simp_all add: vehicle_str_def)

lemma key_inj:
  assumes "a @ ''_'' @ vehicle_str v = b @ ''_'' @ vehicle_str w"
  shows "a = b \<and> v = w"
proof -
  have "v = w"
    using vehicle_str_last [of a v] vehicle_str_last [of b w] assms
    by (cases v; cases w) simp_all
  with assms show ?thesis by simp
qed

lemma result_key_inj: "result_key x = result_key y \<Longrightarrow> user_id x = user_id y \<and> vehicle_type x = vehicle_type y"
  unfolding result_key_def by (rule key_inj)

lemma distinct_pairs_of_keys:
  "distinct (map result_key ws) \<Longrightarrow> distinct (map (\<lambda>w. (user_id w, vehicle_type w)) ws)"
proof (induction ws)
  case Nil
  then show ?case by simp
next
  case (Cons w ws)
  have "(user_id w, vehicle_type w) \<notin> (\<lambda>w. (user_id w, vehicle_type w)) ` set ws"
  proof
    assume "(user_id w, vehicle_type w) \<in> (\<lambda>w. (user_id w, vehicle_type w)) ` set ws"
    then obtain x where "x \<in> set ws" "user_id x = user_id w" "vehicle_type x = vehicle_type w"
      by auto
    then have "result_key w \<in> result_key ` set ws"
      by (auto simp: result_key_def image_iff intro!: bexI [of _ x])
    with Cons.prems show False by simp
  qed
  with Cons show ?case by simp
qed

text \<open>The inventories that the generator produces.\<close>

lemma generate_spots_length:
  "length (fst (generate_spots n m)) = n" "length (snd (generate_spots n m)) = m"
  by (simp_all add: generate_spots_def)

lemma generate_spots_nonempty:
  "[] \<notin> set (fst (generate_spots n m))" "[] \<notin> set (snd (generate_spots n m))"
  by (auto simp: generate_spots_def)

lemma erase_spot_participant [simp]: "erase_spot (participant c s) = participant c None"
  by (simp add: erase_spot_def participant_def)

text \<open>Every iteration records the candidate once, as a winner or as a non-winner.\<close>

lemma entries_step: "mset (entries (assign_step st c)) = add_mset (participant c None) (mset (entries st))"
  by (auto simp: entries_def assign_step_def pop_spot_def Let_def split: prod.splits)

lemma entries_all:
  "mset (entries (assign_all st cs)) = mset (entries st) + mset (map (\<lambda>c. participant c None) cs)"
  by (induction cs arbitrary: st) (simp_all add: assign_all_Cons assign_all_Nil entries_step)







section \<open>Inventories, initial state and resolved residents\<close>

lemma distinct_spot_names: "distinct (map (\<lambda>i. p @ fmt_0d 2 (int (i + 1))) [0..<n])"
proof -
  have "inj_on (\<lambda>i. p @ fmt_0d 2 (int (i + 1))) (set [0..<n])"
    by (rule inj_onI) (auto dest: fmt_0d_inj [rotated 2])
  then show ?thesis
    by (simp only: distinct_map distinct_upt simp_thms)
qed

lemma generate_spots_distinct:
  "distinct (fst (generate_spots n m) @ snd (generate_spots n m))"
  using distinct_spot_names [of "''C-''" n] distinct_spot_names [of "''M-''" m]
  by (auto simp: generate_spots_def)

lemma init_alloc_fields:
  "car_spots (init_alloc n m) = fst (generate_spots n m)"
  "moto_spots (init_alloc n m) = snd (generate_spots n m)"
  "a_winners (init_alloc n m) = []" "a_non_winners (init_alloc n m) = []"
  "assigned_users_and_vehicle_types (init_alloc n m) = {}"
  by (simp_all add: init_alloc_def split: prod.splits)

lemma init_alloc_no_empty: "no_empty_spot (init_alloc n m)"
  using generate_spots_nonempty [of n m] by (simp add: no_empty_spot_def init_alloc_fields)

lemma init_alloc_keys: "keys_distinct (init_alloc n m)"
  by (simp add: keys_distinct_def init_alloc_fields)

lemma init_alloc_recorded: "spots_recorded (init_alloc n m)"
  by (simp add: spots_recorded_def init_alloc_fields)

text \<open>The cache never changes what a lookup gives.\<close>

lemma resolve_users_cache:
  assumes "\<And>k u. user_cache k = Some u \<Longrightarrow> get_user coll k = Some u"
  shows "resolve_users coll user_cache reqs =
           concat (map (\<lambda>r. case get_user coll (rq_user_id r) of None \<Rightarrow> []
                        | Some u \<Rightarrow> [\<lparr>request = r, user = u, priority_score = 0\<rparr>]) reqs)"
  using assms
proof (induction reqs arbitrary: user_cache)
  case Nil
  then show ?case by simp
next
  case (Cons r reqs)
  show ?case
  proof (cases "user_cache (rq_user_id r)")
    case None
    show ?thesis
    proof (cases "get_user coll (rq_user_id r)")
      case n: None
      with None Cons.IH [of user_cache] Cons.prems show ?thesis by simp
    next
      case (Some u)
      have "resolve_users coll (user_cache(rq_user_id r \<mapsto> u)) reqs =
           concat (map (\<lambda>r. case get_user coll (rq_user_id r) of None \<Rightarrow> []
                        | Some u \<Rightarrow> [\<lparr>request = r, user = u, priority_score = 0\<rparr>]) reqs)"
        using Cons.prems Some by (intro Cons.IH) (auto split: if_splits)
      with None Some show ?thesis by simp
    qed
  next
    case (Some u)
    with Cons.prems have "get_user coll (rq_user_id r) = Some u" by simp
    with Some Cons.IH [of user_cache] Cons.prems show ?thesis by simp
  qed
qed

lemma resolve_users_empty_cache:
  "resolve_users coll Map.empty reqs =
     concat (map (\<lambda>r. case get_user coll (rq_user_id r) of None \<Rightarrow> []
                  | Some u \<Rightarrow> [\<lparr>request = r, user = u, priority_score = 0\<rparr>]) reqs)"
  by (rule resolve_users_cache) simp

lemma resolve_users_requests:
  "map request (resolve_users coll Map.empty reqs)
     = filter (\<lambda>r. get_user coll (rq_user_id r) \<noteq> None) reqs"
proof -
  have "map request (concat (map (\<lambda>r. case get_user coll (rq_user_id r) of None \<Rightarrow> []
                        | Some u \<Rightarrow> [\<lparr>request = r, user = u, priority_score = 0\<rparr>]) reqs))
      = filter (\<lambda>r. get_user coll (rq_user_id r) \<noteq> None) reqs"
    by (induction reqs) (auto split: option.splits)
  then show ?thesis by (simp only: resolve_users_empty_cache)
qed

lemma resolve_users_user:
  "c \<in> set (resolve_users coll Map.empty reqs) \<Longrightarrow>
     get_user coll (rq_user_id (request c)) = Some (user c)"
  by (auto simp: resolve_users_empty_cache split: option.splits)

section \<open>Results of a run\<close>

lemma final_sorted_requests_Nil: "final_sorted_requests rs [] = []"
  by (simp add: final_sorted_requests_def sort_desc_def)

lemma execute_lottery_result:
  assumes "execute_lottery e lottery_data d = (Inr res, d')"
  shows "\<exists>ids. winners res = a_winners (walk e lottery_data d ids)
           \<and> non_winners res = a_non_winners (walk e lottery_data d ids)"
proof (cases "find_many_accepted (requests d) (lc_period lottery_data) 1000 = []")
  case True
  with assms have "winners res = [] \<and> non_winners res = []"
    by (auto simp: execute_lottery_def create_lottery_def Let_def split: option.splits if_splits)
  moreover from True have "walk e lottery_data d [] = init_alloc (num_car_spots lottery_data) (num_moto_spots lottery_data)"
    by (simp add: walk_def load_candidates_def final_sorted_requests_Nil assign_all_Nil)
  ultimately show ?thesis
    by (metis init_alloc_fields(3,4))
next
  case False
  with assms obtain ids where
    "get_previous_period_non_winners d (lc_period lottery_data) = Inr ids"
    "winners res = a_winners (walk e lottery_data d ids)"
    "non_winners res = a_non_winners (walk e lottery_data d ids)"
    by (auto simp: execute_lottery_def create_lottery_def Let_def walk_def load_candidates_def
        split: option.splits sum.splits if_splits)
  then show ?thesis by blast
qed

text \<open>A run whose result is stored used the list of the resolver for its scores.\<close>

lemma run_uses_resolver:
  assumes "execute_lottery e lottery_data d = (Inr res, d')"
    and "get_previous_period_non_winners d (lc_period lottery_data) = Inr ids"
  shows "winners res = a_winners (walk e lottery_data d ids)
       \<and> non_winners res = a_non_winners (walk e lottery_data d ids)"
proof (cases "find_many_accepted (requests d) (lc_period lottery_data) 1000 = []")
  case True
  with assms(1) have "winners res = [] \<and> non_winners res = []"
    by (auto simp: execute_lottery_def create_lottery_def Let_def split: option.splits if_splits)
  moreover from True have "walk e lottery_data d ids
      = init_alloc (num_car_spots lottery_data) (num_moto_spots lottery_data)"
    by (simp add: walk_def load_candidates_def final_sorted_requests_Nil assign_all_Nil)
  ultimately show ?thesis
    by (simp add: init_alloc_fields)
next
  case False
  with assms show ?thesis
    by (auto simp: execute_lottery_def create_lottery_def Let_def walk_def load_candidates_def
        split: option.splits if_splits)
qed

lemma execute_lottery_succeeds:
  assumes "find_one_period (lotteries d) (lc_period lottery_data) = None"
    and "previous_period (lc_period lottery_data) = Inr q"
    and "int (num_car_spots lottery_data) < 2 ^ 63" "int (num_moto_spots lottery_data) < 2 ^ 63"
    and "inserted_id e = Some oid" "found_after_insert e"
  shows "\<exists>res. execute_lottery e lottery_data d = (Inr res, d\<lparr>lotteries := lotteries d @ [res]\<rparr>)"
proof -
  from assms(2) obtain ids where "get_previous_period_non_winners d (lc_period lottery_data) = Inr ids"
    using resolver_set [of "lc_period lottery_data" q d] by blast
  with assms(1,3-6) show ?thesis
    by (simp add: execute_lottery_def create_lottery_def Let_def)
qed

lemma walk_candidates:
  "mset (map (\<lambda>c. participant c None)
      (final_sorted_requests rs (map (score_item ids) cands)))
     = mset (map (\<lambda>c. participant c None) cands)"
proof -
  have "mset (map (\<lambda>c. participant c None) (final_sorted_requests rs (map (score_item ids) cands)))
      = image_mset (\<lambda>c. participant c None) (mset (map (score_item ids) cands))"
    by (simp add: final_mset)
  also have "\<dots> = mset (map (\<lambda>c. participant c None) cands)"
    by (simp add: participant_def multiset.map_comp comp_def)
  finally show ?thesis .
qed

lemma walk_entries:
  "mset (entries (walk e lottery_data d ids))
     = mset (map (\<lambda>c. participant c None) (load_candidates d (lc_period lottery_data)))"
proof -
  have "entries (init_alloc (num_car_spots lottery_data) (num_moto_spots lottery_data)) = []"
    by (simp add: entries_def init_alloc_fields)
  then show ?thesis
    using walk_candidates [of "draws e" ids "load_candidates d (lc_period lottery_data)"]
    by (simp add: walk_def entries_all)
qed


lemma assignment_key_score [simp]: "assignment_key (score_item ids c) = assignment_key c"
  by (simp add: assignment_key_def)

lemma participant_score [simp]: "participant (score_item ids c) s = participant c s"
  by (simp add: participant_def)

lemma pair_erase_spot:
  "map (\<lambda>w. (user_id w, vehicle_type w)) (map erase_spot ws) = map (\<lambda>w. (user_id w, vehicle_type w)) ws"
  by (simp add: erase_spot_def)

lemma run_entries:
  assumes "execute_lottery e lottery_data d = (Inr res, d')"
  shows "mset (map erase_spot (winners res @ non_winners res))
           = mset (map (\<lambda>c. participant c None) (load_candidates d (lc_period lottery_data)))"
proof -
  from execute_lottery_result [OF assms] obtain ids where
    r: "winners res = a_winners (walk e lottery_data d ids)"
       "non_winners res = a_non_winners (walk e lottery_data d ids)" by blast
  from walk_entries [of e lottery_data d ids] r show ?thesis
    by (simp add: entries_def)
qed

lemma load_candidates_requests:
  "map request (load_candidates d p)
     = filter (\<lambda>r. get_user (users d) (rq_user_id r) \<noteq> None) (find_many_accepted (requests d) p 1000)"
  by (simp only: load_candidates_def resolve_users_requests)

lemma find_many_accepted_1000:
  "find_many_accepted coll p 1000
     = take 1000 (filter (\<lambda>r. rq_lottery_period r = p \<and> rq_status r = Accepted) coll)"
  by (simp add: find_many_accepted_def)

lemma run_count:
  assumes "execute_lottery e lottery_data d = (Inr res, d')"
  shows "length (winners res) + length (non_winners res)
           = length (filter (\<lambda>r. get_user (users d) (rq_user_id r) \<noteq> None)
               (find_many_accepted (requests d) (lc_period lottery_data) 1000))"
proof -
  have "length (winners res) + length (non_winners res)
      = size (mset (map erase_spot (winners res @ non_winners res)))"
    by simp
  also have "\<dots> = length (load_candidates d (lc_period lottery_data))"
    by (simp only: run_entries [OF assms] size_mset length_map)
  also have "\<dots> = length (map request (load_candidates d (lc_period lottery_data)))"
    by simp
  finally show ?thesis
    by (simp only: load_candidates_requests)
qed

section \<open>Runs on the example stores\<close>

lemma ex_two_one_run:
  "execute_lottery ex_env (ex_create 1 1) ex_db_two
     = (Inr ex_two_one, ex_db_two\<lparr>lotteries := [ex_june, ex_two_one]\<rparr>)"
  by code_simp

lemma ex_two_all_run:
  "execute_lottery ex_env (ex_create 2 1) ex_db_two
     = (Inr ex_two_all, ex_db_two\<lparr>lotteries := [ex_june, ex_two_all]\<rparr>)"
  by code_simp

lemma ex_dup_run:
  "execute_lottery ex_env (ex_create 5 0) ex_db_dup
     = (Inr ex_dup_result, ex_db_dup\<lparr>lotteries := [ex_dup_result]\<rparr>)"
  by code_simp

lemma ex_final_run:
  "ex_final = final_sorted_requests (draws ex_env)
     (map (score_item [''u1'']) (resolve_users ex_users Map.empty (requests ex_db_two)))"
  by code_simp

lemma ex_two_candidates:
  "load_candidates ex_db_two ''2025-07''
     = [ex_cand ''r1'' ''u1'' ex_ana False True 0, ex_cand ''r2'' ''u2'' ex_luis True False 0]"
  by (simp add: load_candidates_def find_many_accepted_def ex_db_two_def ex_req_def ex_users_def
      get_user_def ex_cand_def)

lemma ex_many_accepted:
  "filter (\<lambda>r. rq_lottery_period r = ''2025-07'' \<and> rq_status r = Accepted) (requests (ex_db_many n))
     = requests (ex_db_many n)"
  by (simp add: ex_db_many_def ex_req_def filter_map comp_def)

lemma ex_many_length: "length (requests (ex_db_many n)) = n"
  by (simp add: ex_db_many_def)

lemma ex_many_resolvable:
  "r \<in> set (requests (ex_db_many n)) \<Longrightarrow> get_user (users (ex_db_many n)) (rq_user_id r) \<noteq> None"
  by (auto simp: ex_db_many_def get_user_def map_of_eq_None_iff ex_req_def image_iff)

lemma ex_many_loaded:
  "length (filter (\<lambda>r. get_user (users (ex_db_many 1001)) (rq_user_id r) \<noteq> None)
     (find_many_accepted (requests (ex_db_many 1001)) ''2025-07'' 1000)) = 1000"
proof -
  have "filter (\<lambda>r. get_user (users (ex_db_many 1001)) (rq_user_id r) \<noteq> None)
          (take 1000 (requests (ex_db_many 1001))) = take 1000 (requests (ex_db_many 1001))"
    by (rule filter_True) (auto dest: in_set_takeD ex_many_resolvable)
  then show ?thesis
    by (simp add: find_many_accepted_def ex_many_accepted ex_many_length)
qed

section \<open>Properties of every run\<close>

lemma run_scores:
  assumes "c \<in> set (final_sorted_requests rs (map (score_item ids) (load_candidates d p)))"
  shows "priority_score c =
           (if rq_disability (request c) then 1000 else 0)
           + (if u_id (user c) \<in> set ids then 500 else 0)
           + (if rq_pay (request c) then 100 else 0)"
proof -
  have "set (final_sorted_requests rs (map (score_item ids) (load_candidates d p)))
      = set (map (score_item ids) (load_candidates d p))"
    by (rule mset_eq_setD) (rule final_mset)
  with assms obtain c0 where c0: "c0 \<in> set (load_candidates d p)" "c = score_item ids c0"
    by auto
  from c0(1) have "priority_score c0 = 0"
    unfolding load_candidates_def by (rule resolve_users_score0)
  with c0(2) show ?thesis by (simp add: score_item_value)
qed

text \<open>
  Claim C5. For a period string in YYYY-MM form (year 0 to 9999, month 1 to 12) the resolver
  looks at the immediately prior calendar month, written \<open>period_str y' m'\<close> with
  \<open>12 * y' + m' = 12 * y + m - 1\<close> (so month 1 of year y gives month 12 of year y - 1). It
  returns a list whose set is the set of resident ids in the nonWinners of the stored result
  of that prior period, and the empty list when there is none; it does not fail. Every run of
  execute_lottery for the period that produces a result is the assignment walk over a final
  order in which the score of each candidate has the +500 exactly when the resident id of
  the candidate is in that set: a resident is boosted only when listed in the nonWinners of
  the immediately preceding period, and a loss in any older period gives nothing.
\<close>

theorem carry_forward_resolver:
  assumes "0 \<le> y" "y \<le> 9999" "1 \<le> m" "m \<le> 12"
  shows "\<exists>y' m' ids.
           1 \<le> m' \<and> m' \<le> 12 \<and> 12 * y' + m' = 12 * y + m - 1 \<and>
           (m = 1 \<longrightarrow> y' = y - 1 \<and> m' = 12) \<and>
           previous_period (period_str y m) = Inr (period_str y' m') \<and>
           get_previous_period_non_winners d (period_str y m) = Inr ids \<and>
           set ids = (case find_one_period (lotteries d) (period_str y' m') of
                        None \<Rightarrow> {} | Some l \<Rightarrow> user_id ` set (non_winners l)) \<and>
           (\<forall>c. priority_score (score_item ids c) - priority_score (score_item [] c) =
                  (if u_id (user c) \<in> set ids then 500 else 0)) \<and>
           (\<forall>e lottery_data res d'.
              lc_period lottery_data = period_str y m \<and>
              execute_lottery e lottery_data d = (Inr res, d') \<longrightarrow>
              (\<exists>final.
                 final = final_sorted_requests (draws e)
                           (map (score_item ids) (load_candidates d (period_str y m))) \<and>
                 winners res = a_winners (assign_all
                   (init_alloc (num_car_spots lottery_data) (num_moto_spots lottery_data)) final) \<and>
                 non_winners res = a_non_winners (assign_all
                   (init_alloc (num_car_spots lottery_data) (num_moto_spots lottery_data)) final) \<and>
                 (\<forall>c\<in>set final. priority_score c =
                    (if rq_disability (request c) then 1000 else 0)
                    + (if u_id (user c) \<in> (case find_one_period (lotteries d) (period_str y' m') of
                                               None \<Rightarrow> {} | Some l \<Rightarrow> user_id ` set (non_winners l))
                       then 500 else 0)
                    + (if rq_pay (request c) then 100 else 0))))"
proof -
  define y' where "y' = (if m = 1 then y - 1 else y)"
  define m' where "m' = (if m = 1 then 12 else m - 1)"
  have prev: "previous_period (period_str y m) = Inr (period_str y' m')"
    using assms previous_period_period_str [of y m] by (simp add: y'_def m'_def)
  from resolver_set [OF prev, of d] obtain ids where
    ids: "get_previous_period_non_winners d (period_str y m) = Inr ids"
      "set ids = (case find_one_period (lotteries d) (period_str y' m') of
                    None \<Rightarrow> {} | Some l \<Rightarrow> user_id ` set (non_winners l))"
    by blast
  have arith: "1 \<le> m' \<and> m' \<le> 12 \<and> 12 * y' + m' = 12 * y + m - 1 \<and>
      (m = 1 \<longrightarrow> y' = y - 1 \<and> m' = 12)"
    using assms by (simp add: y'_def m'_def)
  have boost: "\<forall>c. priority_score (score_item ids c) - priority_score (score_item [] c) =
      (if u_id (user c) \<in> set ids then 500 else 0)"
    by (simp add: score_item_value)
  have run: "\<exists>final.
         final = final_sorted_requests (draws e)
                   (map (score_item ids) (load_candidates d (period_str y m))) \<and>
         winners res = a_winners (assign_all
           (init_alloc (num_car_spots lottery_data) (num_moto_spots lottery_data)) final) \<and>
         non_winners res = a_non_winners (assign_all
           (init_alloc (num_car_spots lottery_data) (num_moto_spots lottery_data)) final) \<and>
         (\<forall>c\<in>set final. priority_score c =
            (if rq_disability (request c) then 1000 else 0)
            + (if u_id (user c) \<in> (case find_one_period (lotteries d) (period_str y' m') of
                                       None \<Rightarrow> {} | Some l \<Rightarrow> user_id ` set (non_winners l))
               then 500 else 0)
            + (if rq_pay (request c) then 100 else 0))"
    if p: "lc_period lottery_data = period_str y m"
      and r: "execute_lottery e lottery_data d = (Inr res, d')"
    for e lottery_data res d'
  proof -
    from ids(1) p have "get_previous_period_non_winners d (lc_period lottery_data) = Inr ids"
      by simp
    from run_uses_resolver [OF r this] p
    have w: "winners res = a_winners (assign_all
          (init_alloc (num_car_spots lottery_data) (num_moto_spots lottery_data))
          (final_sorted_requests (draws e)
            (map (score_item ids) (load_candidates d (period_str y m)))))"
      "non_winners res = a_non_winners (assign_all
          (init_alloc (num_car_spots lottery_data) (num_moto_spots lottery_data))
          (final_sorted_requests (draws e)
            (map (score_item ids) (load_candidates d (period_str y m)))))"
      by (simp_all add: walk_def)
    have "\<forall>c\<in>set (final_sorted_requests (draws e)
            (map (score_item ids) (load_candidates d (period_str y m)))).
        priority_score c =
            (if rq_disability (request c) then 1000 else 0)
            + (if u_id (user c) \<in> set ids then 500 else 0)
            + (if rq_pay (request c) then 100 else 0)"
      by (blast intro: run_scores)
    with w show ?thesis
      by (simp only: ids(2)) blast
  qed
  from arith prev ids boost run show ?thesis by blast
qed

lemma ex_final_order:
  "final_sorted_requests (draws ex_env)
     (map (score_item [''u1'']) (load_candidates ex_db_two ''2025-07'')) = ex_final"
  by code_simp

theorem carry_forward_resolver_witness:
  "(0::int) \<le> 2025 \<and> (2025::int) \<le> 9999 \<and> (1::int) \<le> 7 \<and> (7::int) \<le> 12
   \<and> period_str 2025 7 = ''2025-07''
   \<and> lc_period (ex_create 1 1) = period_str 2025 7
   \<and> execute_lottery ex_env (ex_create 1 1) ex_db_two
        = (Inr ex_two_one, ex_db_two\<lparr>lotteries := [ex_june, ex_two_one]\<rparr>)
   \<and> previous_period ''2025-07'' = Inr ''2025-06''
   \<and> get_previous_period_non_winners ex_db_two ''2025-07'' = Inr [''u1'']
   \<and> winners ex_two_one = a_winners (assign_all (init_alloc 1 1) ex_final)
   \<and> non_winners ex_two_one = a_non_winners (assign_all (init_alloc 1 1) ex_final)
   \<and> map priority_score ex_final = [1000, 600]
   \<and> get_previous_period_non_winners ex_db_two ''2025-08'' = Inr []
   \<and> get_previous_period_non_winners ex_db_two ''2025-01'' = Inr []"
proof -
  have b: "(0::int) \<le> 2025" "(2025::int) \<le> 9999" "(1::int) \<le> 7" "(7::int) \<le> 12"
    by simp_all
  have p: "period_str 2025 7 = ''2025-07''"
    by code_simp
  then have lc: "lc_period (ex_create 1 1) = period_str 2025 7"
    by (simp add: ex_create_def)
  have pp: "previous_period ''2025-07'' = Inr ''2025-06''"
    by code_simp
  have g: "get_previous_period_non_winners ex_db_two ''2025-07'' = Inr [''u1'']"
    by code_simp
  from carry_forward_resolver [OF b, of ex_db_two] obtain ids where
    i: "get_previous_period_non_winners ex_db_two (period_str 2025 7) = Inr ids"
    and r: "\<And>e lottery_data res d'.
      lc_period lottery_data = period_str 2025 7 \<Longrightarrow>
      execute_lottery e lottery_data ex_db_two = (Inr res, d') \<Longrightarrow>
      winners res = a_winners (assign_all
          (init_alloc (num_car_spots lottery_data) (num_moto_spots lottery_data))
          (final_sorted_requests (draws e)
            (map (score_item ids) (load_candidates ex_db_two (period_str 2025 7)))))
      \<and> non_winners res = a_non_winners (assign_all
          (init_alloc (num_car_spots lottery_data) (num_moto_spots lottery_data))
          (final_sorted_requests (draws e)
            (map (score_item ids) (load_candidates ex_db_two (period_str 2025 7)))))"
    by blast
  from i g have ids: "ids = [''u1'']"
    by (simp add: p)
  from r [OF lc ex_two_one_run]
  have w: "winners ex_two_one = a_winners (assign_all (init_alloc 1 1) ex_final)"
    "non_winners ex_two_one = a_non_winners (assign_all (init_alloc 1 1) ex_final)"
    by (simp_all add: ids p ex_final_order ex_create_def)
  have s: "map priority_score ex_final = [1000, 600]"
    by (simp add: ex_final_def ex_cand_def)
  have l1: "get_previous_period_non_winners ex_db_two ''2025-08'' = Inr []"
    by code_simp
  have l2: "get_previous_period_non_winners ex_db_two ''2025-01'' = Inr []"
    by code_simp
  from b p lc ex_two_one_run pp g w s l1 l2 show ?thesis
    by simp
qed

text \<open>
  Claim C1, as stated, fails: with two accepted car requests of the same resident, the run
  records the first of them in the final order as a winner and the other one as a non-winner,
  so the pair (resident, automovil) occurs twice among winners and non_winners.
\<close>

theorem duplicate_pair_counterexample:
  "execute_lottery ex_env (ex_create 5 0) ex_db_dup
     = (Inr ex_dup_result, ex_db_dup\<lparr>lotteries := [ex_dup_result]\<rparr>)
   \<and> \<not> distinct (map (\<lambda>w. (user_id w, vehicle_type w))
          (winners ex_dup_result @ non_winners ex_dup_result))"
  using ex_dup_run by (simp add: ex_dup_result_def ex_result_def ex_entry_def)

text \<open>
  Claim C1, amended. In every result that execute_lottery produces, every pair
  (resident id, vehicle category) occurs at most once among the winners; a later request
  with the same pair is recorded as a further non-winner entry. When no two candidates of the
  run share the pair, every pair occurs at most once among winners and non_winners together.
\<close>

theorem winners_pairs_distinct:
  assumes "execute_lottery e lottery_data d = (Inr res, d')"
  shows "distinct (map (\<lambda>w. (user_id w, vehicle_type w)) (winners res))
       \<and> (distinct (map (\<lambda>c. (u_id (user c), rq_vehicle_type (request c)))
                      (load_candidates d (lc_period lottery_data)))
            \<longrightarrow> distinct (map (\<lambda>w. (user_id w, vehicle_type w)) (winners res @ non_winners res)))"
proof -
  from execute_lottery_result [OF assms] obtain ids where
    r: "winners res = a_winners (walk e lottery_data d ids)" by blast
  have "keys_distinct (walk e lottery_data d ids)"
    unfolding walk_def by (intro keys_distinct_all init_alloc_keys)
  then have "distinct (map result_key (winners res))"
    by (simp add: keys_distinct_def r)
  then have w: "distinct (map (\<lambda>w. (user_id w, vehicle_type w)) (winners res))"
    by (rule distinct_pairs_of_keys)
  let ?cands = "load_candidates d (lc_period lottery_data)"
  have "mset (map (\<lambda>w. (user_id w, vehicle_type w)) (map erase_spot (winners res @ non_winners res)))
      = mset (map (\<lambda>w. (user_id w, vehicle_type w)) (map (\<lambda>c. participant c None) ?cands))"
    using run_entries [OF assms] by (metis mset_map)
  then have "mset (map (\<lambda>w. (user_id w, vehicle_type w)) (winners res @ non_winners res))
      = mset (map (\<lambda>c. (u_id (user c), rq_vehicle_type (request c))) ?cands)"
    by (simp only: pair_erase_spot) (simp add: comp_def)
  then have "distinct (map (\<lambda>w. (user_id w, vehicle_type w)) (winners res @ non_winners res))
      = distinct (map (\<lambda>c. (u_id (user c), rq_vehicle_type (request c))) ?cands)"
    by (rule mset_eq_imp_distinct_iff)
  with w show ?thesis by simp
qed

theorem winners_pairs_distinct_witness:
  "execute_lottery ex_env (ex_create 1 1) ex_db_two
     = (Inr ex_two_one, ex_db_two\<lparr>lotteries := [ex_june, ex_two_one]\<rparr>)
   \<and> distinct (map (\<lambda>c. (u_id (user c), rq_vehicle_type (request c)))
        (load_candidates ex_db_two (lc_period (ex_create 1 1))))
   \<and> distinct (map (\<lambda>w. (user_id w, vehicle_type w)) (winners ex_two_one))
   \<and> distinct (map (\<lambda>w. (user_id w, vehicle_type w)) (winners ex_two_one @ non_winners ex_two_one))"
proof -
  have "distinct (map (\<lambda>c. (u_id (user c), rq_vehicle_type (request c)))
        (load_candidates ex_db_two (lc_period (ex_create 1 1))))"
    by (simp add: ex_create_def ex_two_candidates ex_cand_def ex_ana_def ex_luis_def)
  with winners_pairs_distinct [OF ex_two_one_run] ex_two_one_run show ?thesis
    by blast
qed




text \<open>What a run records of the requests it loaded: every loaded request whose resident
  resolves contributes exactly one entry to winners or non_winners (the entries, spot aside,
  are those of the candidates), so the two lists together are as long as the list of loaded
  requests whose resident resolves.\<close>

lemma loaded_entries_account:
  assumes "execute_lottery e lottery_data d = (Inr res, d')"
  shows "mset (map erase_spot (winners res @ non_winners res))
           = mset (map (\<lambda>c. participant c None) (load_candidates d (lc_period lottery_data)))
       \<and> map request (load_candidates d (lc_period lottery_data))
           = filter (\<lambda>r. get_user (users d) (rq_user_id r) \<noteq> None)
               (take 1000 (filter (\<lambda>r. rq_lottery_period r = lc_period lottery_data
                                        \<and> rq_status r = Accepted) (requests d)))
       \<and> length (winners res) + length (non_winners res)
           = length (filter (\<lambda>r. get_user (users d) (rq_user_id r) \<noteq> None)
               (take 1000 (filter (\<lambda>r. rq_lottery_period r = lc_period lottery_data
                                        \<and> rq_status r = Accepted) (requests d))))"
  using run_entries [OF assms] run_count [OF assms]
    load_candidates_requests [of d "lc_period lottery_data"]
  by (simp only: find_many_accepted_1000)

lemma loaded_entries_account_example:
  "execute_lottery ex_env (ex_create 1 1) ex_db_two
     = (Inr ex_two_one, ex_db_two\<lparr>lotteries := [ex_june, ex_two_one]\<rparr>)
   \<and> length (filter (\<lambda>r. rq_lottery_period r = ''2025-07'' \<and> rq_status r = Accepted)
        (requests ex_db_two)) = 3
   \<and> length (filter (\<lambda>r. get_user (users ex_db_two) (rq_user_id r) \<noteq> None)
        (take 1000 (filter (\<lambda>r. rq_lottery_period r = lc_period (ex_create 1 1)
                                 \<and> rq_status r = Accepted) (requests ex_db_two)))) = 2
   \<and> length (winners ex_two_one) + length (non_winners ex_two_one) = 2"
proof -
  have a: "length (filter (\<lambda>r. rq_lottery_period r = ''2025-07'' \<and> rq_status r = Accepted)
        (requests ex_db_two)) = 3"
    by (simp add: ex_db_two_def ex_req_def)
  have b: "length (filter (\<lambda>r. get_user (users ex_db_two) (rq_user_id r) \<noteq> None)
        (take 1000 (filter (\<lambda>r. rq_lottery_period r = lc_period (ex_create 1 1)
                                 \<and> rq_status r = Accepted) (requests ex_db_two)))) = 2"
    by (simp add: ex_db_two_def ex_req_def ex_create_def ex_users_def get_user_def)
  from loaded_entries_account [OF ex_two_one_run] a b ex_two_one_run show ?thesis
    by simp
qed

text \<open>
  Claim C6 says that all accepted requests of the period are loaded and processed, so that
  winners and non_winners together have as many entries as there are accepted requests,
  minus those skipped for unresolvable residents. The code does not do so: find_many is
  called with limit 1000 and the requests after the first 1000 are dropped without a trace.
  With 1001 accepted requests, each of a resolvable resident, the run succeeds and records
  1000 entries; the same query with limit 0, as the listing of the requests service issues
  it, loads all 1001.
\<close>

theorem load_limit_drops_requests:
  "\<not> isl ex_many_outcome
   \<and> length (filter (\<lambda>r. rq_lottery_period r = ''2025-07'' \<and> rq_status r = Accepted)
        (requests (ex_db_many 1001))) = 1001
   \<and> filter (\<lambda>r. get_user (users (ex_db_many 1001)) (rq_user_id r) = None)
        (requests (ex_db_many 1001)) = []
   \<and> length (winners (projr ex_many_outcome)) + length (non_winners (projr ex_many_outcome)) = 1000
   \<and> length (find_many_accepted (requests (ex_db_many 1001)) ''2025-07'' 1000) = 1000
   \<and> length (find_many_accepted (requests (ex_db_many 1001)) ''2025-07'' 0) = 1001"
proof -
  have nf: "find_one_period (lotteries (ex_db_many 1001)) (lc_period (ex_create 1 0)) = None"
    by (simp add: find_one_period_def ex_db_many_def)
  have "previous_period ''2025-07'' = Inr ''2025-06''"
    by code_simp
  then have pp: "previous_period (lc_period (ex_create 1 0)) = Inr ''2025-06''"
    by (simp add: ex_create_def)
  have st: "int (num_car_spots (ex_create 1 0)) < 2 ^ 63" "int (num_moto_spots (ex_create 1 0)) < 2 ^ 63"
    "inserted_id ex_env = Some ''L1''" "found_after_insert ex_env"
    by (simp_all add: ex_create_def ex_env_def)
  from execute_lottery_succeeds [OF nf pp st] obtain res where
    run: "execute_lottery ex_env (ex_create 1 0) (ex_db_many 1001)
            = (Inr res, ex_db_many 1001\<lparr>lotteries := lotteries (ex_db_many 1001) @ [res]\<rparr>)"
    by blast
  then have out: "ex_many_outcome = Inr res"
    by (simp add: ex_many_outcome_def)
  have "length (winners res) + length (non_winners res) = 1000"
    using run_count [OF run] ex_many_loaded by (simp add: ex_create_def)
  moreover have "filter (\<lambda>r. get_user (users (ex_db_many 1001)) (rq_user_id r) = None)
        (requests (ex_db_many 1001)) = []"
    by (auto simp: filter_empty_conv dest: ex_many_resolvable)
  moreover have "length (find_many_accepted (requests (ex_db_many 1001)) ''2025-07'' 1000) = 1000"
    "length (find_many_accepted (requests (ex_db_many 1001)) ''2025-07'' 0) = 1001"
    by (simp_all add: find_many_accepted_def ex_many_accepted ex_many_length)
  ultimately show ?thesis
    by (simp add: out ex_many_accepted ex_many_length)
qed

text \<open>
  Claim C7. In the final order of a run, whatever the draws of the shuffle, a candidate whose
  request has the disability flag stands before every candidate whose request does not: the
  first has a score of at least 1000, the second of at most 600.
\<close>

theorem disability_first:
  assumes "final = final_sorted_requests rs (map (score_item ids) (resolve_users coll user_cache reqs))"
    and "i < length final" "j < length final"
    and "rq_disability (request (final ! i))" "\<not> rq_disability (request (final ! j))"
  shows "i < j \<and> 1000 \<le> priority_score (final ! i) \<and> priority_score (final ! j) \<le> 600"
proof -
  let ?cands = "resolve_users coll user_cache reqs"
  have "set final = set (map (score_item ids) ?cands)"
    unfolding assms(1) by (rule mset_eq_setD) (rule final_mset)
  then have mem: "set final = score_item ids ` set ?cands"
    by simp
  have val: "priority_score x =
       (if rq_disability (request x) then 1000 else 0)
       + (if u_id (user x) \<in> set ids then 500 else 0) + (if rq_pay (request x) then 100 else 0)"
    if "x \<in> set final" for x
  proof -
    from that mem obtain c where "c \<in> set ?cands" "x = score_item ids c" by auto
    then show ?thesis using resolve_users_score0 [of c coll user_cache reqs]
      by (simp add: score_item_value)
  qed
  have hi: "1000 \<le> priority_score (final ! i)"
    using val [of "final ! i"] assms(2,4) by simp
  have lo: "priority_score (final ! j) \<le> 600"
    using val [of "final ! j"] assms(3,5) by simp
  have "i < j"
  proof (rule ccontr)
    assume "\<not> i < j"
    then have "j \<le> i" by simp
    from final_descending [OF this, of rs "map (score_item ids) ?cands"] assms(1,2)
    have "priority_score (final ! i) \<le> priority_score (final ! j)" by simp
    with hi lo show False by simp
  qed
  with hi lo show ?thesis by simp
qed

theorem disability_first_witness:
  "ex_final = final_sorted_requests (draws ex_env)
      (map (score_item [''u1'']) (resolve_users ex_users Map.empty (requests ex_db_two)))
   \<and> 0 < length ex_final \<and> 1 < length ex_final
   \<and> rq_disability (request (ex_final ! 0)) \<and> \<not> rq_disability (request (ex_final ! 1))
   \<and> (0::nat) < 1 \<and> 1000 \<le> priority_score (ex_final ! 0) \<and> priority_score (ex_final ! 1) \<le> 600"
proof -
  have h: "0 < length ex_final" "1 < length ex_final"
    "rq_disability (request (ex_final ! 0))" "\<not> rq_disability (request (ex_final ! 1))"
    by (simp_all add: ex_final_def ex_cand_def ex_req_def)
  from disability_first [OF ex_final_run h] ex_final_run h show ?thesis
    by simp
qed

text \<open>
  Claim C8. In every result the spots of the winners are pairwise different, and each is one
  of the generated identifiers. The generator yields, for the counts n and m, two sequences of
  lengths n and m whose identifiers are all different.
\<close>

theorem winner_spots_unique:
  assumes "execute_lottery e lottery_data d = (Inr res, d')"
    and "gs = generate_spots (num_car_spots lottery_data) (num_moto_spots lottery_data)"
  shows "distinct (map spot (winners res))
       \<and> set (map spot (winners res)) \<subseteq> Some ` (set (fst gs) \<union> set (snd gs))
       \<and> length (fst gs) = num_car_spots lottery_data \<and> length (snd gs) = num_moto_spots lottery_data
       \<and> distinct (fst gs @ snd gs)"
proof -
  from execute_lottery_result [OF assms(1)] obtain ids where
    r: "winners res = a_winners (walk e lottery_data d ids)" by blast
  let ?init = "init_alloc (num_car_spots lottery_data) (num_moto_spots lottery_data)"
  have m: "mset (spots_view (walk e lottery_data d ids)) = mset (spots_view ?init)"
    unfolding walk_def by (intro spots_view_all init_alloc_no_empty)
  have init: "spots_view ?init = map Some (fst gs @ snd gs)"
    by (simp add: spots_view_def init_alloc_fields assms(2))
  have dg: "distinct (fst gs @ snd gs)"
    unfolding assms(2) by (rule generate_spots_distinct)
  then have "distinct (map Some (fst gs @ snd gs))"
    by (simp only: distinct_map) simp
  with m init have "distinct (spots_view (walk e lottery_data d ids))"
    by (metis mset_eq_imp_distinct_iff)
  then have d: "distinct (map spot (winners res))"
    by (simp add: spots_view_def r)
  have "set (spots_view (walk e lottery_data d ids)) = set (map Some (fst gs @ snd gs))"
    using m init by (metis mset_eq_setD)
  then have s: "set (map spot (winners res)) \<subseteq> Some ` (set (fst gs) \<union> set (snd gs))"
    by (auto simp: spots_view_def r)
  from d s dg generate_spots_length [of "num_car_spots lottery_data" "num_moto_spots lottery_data"]
  show ?thesis by (simp add: assms(2))
qed

theorem winner_spots_unique_witness:
  "execute_lottery ex_env (ex_create 2 1) ex_db_two
     = (Inr ex_two_all, ex_db_two\<lparr>lotteries := [ex_june, ex_two_all]\<rparr>)
   \<and> distinct (map spot (winners ex_two_all))
   \<and> map spot (winners ex_two_all) = [Some ''C-01'', Some ''C-02'']
   \<and> length (fst (generate_spots 2 1)) = 2 \<and> length (snd (generate_spots 2 1)) = 1
   \<and> distinct (fst (generate_spots 2 1) @ snd (generate_spots 2 1))"
proof -
  have "map spot (winners ex_two_all) = [Some ''C-01'', Some ''C-02'']"
    by (simp add: ex_two_all_def ex_result_def ex_entry_def)
  with winner_spots_unique [OF ex_two_all_run refl] ex_two_all_run show ?thesis
    by (simp add: ex_create_def)
qed

text \<open>
  Claim C10. In every result each winner has a spot and each non-winner has none, so among
  the recorded entries the winners are exactly those with a spot.
\<close>

theorem winners_have_spots:
  assumes "execute_lottery e lottery_data d = (Inr res, d')"
  shows "(\<forall>w\<in>set (winners res). spot w \<noteq> None) \<and> (\<forall>l\<in>set (non_winners res). spot l = None)
       \<and> (\<forall>x\<in>set (winners res) \<union> set (non_winners res). (x \<in> set (winners res)) = (spot x \<noteq> None))"
proof -
  from execute_lottery_result [OF assms] obtain ids where
    r: "winners res = a_winners (walk e lottery_data d ids)"
       "non_winners res = a_non_winners (walk e lottery_data d ids)" by blast
  have "spots_recorded (walk e lottery_data d ids)"
    unfolding walk_def by (intro spots_recorded_all init_alloc_recorded)
  with r have "(\<forall>w\<in>set (winners res). spot w \<noteq> None) \<and> (\<forall>l\<in>set (non_winners res). spot l = None)"
    by (simp add: spots_recorded_def list_all_iff)
  then show ?thesis by auto
qed

theorem winners_have_spots_witness:
  "execute_lottery ex_env (ex_create 1 1) ex_db_two
     = (Inr ex_two_one, ex_db_two\<lparr>lotteries := [ex_june, ex_two_one]\<rparr>)
   \<and> ex_entry ''r2'' ex_luis (Some ''C-01'') \<in> set (winners ex_two_one)
   \<and> spot (ex_entry ''r2'' ex_luis (Some ''C-01'')) \<noteq> None
   \<and> ex_entry ''r1'' ex_ana None \<in> set (non_winners ex_two_one)
   \<and> spot (ex_entry ''r1'' ex_ana None) = None"
proof -
  have m: "ex_entry ''r2'' ex_luis (Some ''C-01'') \<in> set (winners ex_two_one)"
    "ex_entry ''r1'' ex_ana None \<in> set (non_winners ex_two_one)"
    by (simp_all add: ex_two_one_def ex_result_def)
  from winners_have_spots [OF ex_two_one_run] m ex_two_one_run show ?thesis
    by blast
qed

end
